theory Spec2Isabelle
  imports Main "HOL-Library.Word" "HOL-Library.Sublist"
begin

unbundle bit_operations_syntax

section \<open>Basic data of the snapshot service\<close>

text \<open>
  Go's \<open>byte\<close> is an unsigned 8-bit integer and \<open>[]byte\<close> a sequence of them.
  Nibble paths are byte sequences whose entries are 0..15, with 16 as the
  terminator of a full key.
\<close>

type_synonym byte = "8 word"
type_synonym bytes = "byte list"

text \<open>
  \<open>rlp.DecodeBytes(n, &elements)\<close> with \<open>elements []interface{}\<close> yields, for
  each element, either a byte string (\<open>[]byte\<close>) or a nested list
  (\<open>[]interface{}\<close>).
\<close>

datatype rlp = RBytes bytes | RList "rlp list"

text \<open>pkg/types/node_type.go: \<open>nodeType\<close> and its constants, in \<open>iota\<close> order.\<close>

datatype nodeType = Branch | Extension | Leaf | Removed | Unknown

text \<open>
  The result of a Go call: a returned value, a returned non-nil \<open>error\<close> (its
  message), or a run-time panic (its message).
\<close>

datatype 'a res = Val 'a | Fail string | Panic string

section \<open>pkg/types/node_type.go: CheckKeyType\<close>

text \<open>
  \<open>CheckKeyType\<close> returns the pair \<open>(nodeType, error)\<close>; the model keeps the pair,
  the error as its message. The expression \<open>elements[0].([]byte)[0]\<close> panics when
  the first element is a list (failed type assertion) or an empty byte string
  (index out of range). The division is the unsigned division of \<open>byte\<close>.
\<close>

definition CheckKeyType :: "rlp list \<Rightarrow> (nodeType \<times> string option) res" where
  "CheckKeyType elements =
     (if length elements > 2 then Val (Branch, None)
      else if length elements < 2
        then Val (Unknown, Some ''node cannot be less than two elements in length'')
      else (case elements ! 0 of
              RList _ \<Rightarrow> Panic ''interface conversion: interface {} is not []uint8''
            | RBytes [] \<Rightarrow> Panic ''index out of range [0] with length 0''
            | RBytes (b # _) \<Rightarrow>
                (if b div 16 = 0 then Val (Extension, None)
                 else if b div 16 = 1 then Val (Extension, None)
                 else if b div 16 = 2 then Val (Leaf, None)
                 else if b div 16 = 3 then Val (Leaf, None)
                 else Val (Unknown, Some ''unknown hex prefix''))))"

section \<open>pkg/snapshot/service.go: validPath\<close>

text \<open>\<open>bytes.HasPrefix(s, prefix)\<close>: \<open>s\<close> starts with \<open>prefix\<close>.\<close>

definition HasPrefix :: "bytes \<Rightarrow> bytes \<Rightarrow> bool" where
  "HasPrefix s pre = (length pre \<le> length s \<and> take (length pre) s = pre)"

fun validPath :: "bytes \<Rightarrow> bytes list \<Rightarrow> bool" where
  "validPath currentPath [] = False"
| "validPath currentPath (seekingPath # seekingPaths) =
     (if HasPrefix seekingPath currentPath then True
      else validPath currentPath seekingPaths)"

section \<open>pkg/snapshot/publisher.go: the batch counter\<close>

text \<open>
  The \<open>publisher\<close> struct. \<open>db\<close> stands for the database behind the
  \<open>*postgres.DB\<close> pointer; Go's \<open>uint\<close> is taken at 64 bits. \<open>startTime\<close> is
  only logged and left out.
\<close>

record 'db publisher =
  db :: 'db
  currBatchSize :: "64 word"
  stateNodeCounter :: "64 word"
  storageNodeCounter :: "64 word"
  codeNodeCounter :: "64 word"

text \<open>
  The two calls into \<open>sqlx\<close> that \<open>PrepareTxForBatch\<close> makes: \<open>tx.Commit()\<close>
  and \<open>p.db.Beginx()\<close>. Both act on the database and may fail.
\<close>

record ('db, 'tx) sqlx =
  Commit :: "'tx \<Rightarrow> 'db \<Rightarrow> unit res \<times> 'db"
  Beginx :: "'db \<Rightarrow> 'tx res \<times> 'db"

text \<open>
  \<open>PrepareTxForBatch\<close> returns \<open>(nil, err)\<close> when the commit or the begin fails
  and leaves \<open>currBatchSize\<close> as it was on those paths.
\<close>

definition PrepareTxForBatch ::
  "('db, 'tx) sqlx \<Rightarrow> 'tx \<Rightarrow> 64 word \<Rightarrow> 'db publisher \<Rightarrow> 'tx res \<times> 'db publisher" where
  "PrepareTxForBatch sq tx maxBatchSize p =
     (if maxBatchSize \<le> currBatchSize p then
        (case Commit sq tx (db p) of
           (Fail e, d1) \<Rightarrow> (Fail e, p\<lparr>db := d1\<rparr>)
         | (Panic e, d1) \<Rightarrow> (Panic e, p\<lparr>db := d1\<rparr>)
         | (Val _, d1) \<Rightarrow>
             (case Beginx sq d1 of
                (Fail e, d2) \<Rightarrow> (Fail e, p\<lparr>db := d2\<rparr>)
              | (Panic e, d2) \<Rightarrow> (Panic e, p\<lparr>db := d2\<rparr>)
              | (Val tx', d2) \<Rightarrow> (Val tx', p\<lparr>db := d2, currBatchSize := 0\<rparr>)))
      else (Val tx, p))"

text \<open>
  A small database for running the publisher: the list of committed handles
  and the number of handles opened so far. A handle commits once; the next
  handle is the number of handles opened before it.
\<close>

record demo_db =
  committed :: "nat list"
  opened :: nat
  online :: bool

definition demo_sqlx :: "(demo_db, nat) sqlx" where
  "demo_sqlx =
     \<lparr> Commit = (\<lambda>tx d. if tx \<in> set (committed d)
                          then (Fail ''sql: transaction has already been committed or rolled back'', d)
                          else (Val (), d\<lparr>committed := committed d @ [tx]\<rparr>)),
       Beginx = (\<lambda>d. if online d then (Val (opened d), d\<lparr>opened := Suc (opened d)\<rparr>)
                      else (Fail ''sql: database is closed'', d)) \<rparr>"

definition demo_publisher :: "nat list \<Rightarrow> nat \<Rightarrow> bool \<Rightarrow> 64 word \<Rightarrow> demo_db publisher" where
  "demo_publisher cs n up sz =
     \<lparr> db = \<lparr>committed = cs, opened = n, online = up\<rparr>, currBatchSize = sz,
       stateNodeCounter = 0, storageNodeCounter = 0, codeNodeCounter = 0 \<rparr>"

section \<open>The state trie and its node iterator\<close>

text \<open>
  A \<open>common.Hash\<close> is a sequence of 32 bytes; \<open>nullHash\<close> is the zero hash.
\<close>

type_synonym hash = bytes

definition nullHash :: hash where
  "nullHash = replicate 32 0"

text \<open>
  Modelled from the spec: \<open>IsNullHash\<close> of pkg/types is not among the source
  files; the walker skips a node "at the zero hash".
\<close>

definition IsNullHash :: "hash \<Rightarrow> bool" where
  "IsNullHash h = (h = nullHash)"

text \<open>
  The trie as the iterator of go-ethereum presents it. A node has the hash it
  is stored under (the zero hash for a node embedded in its parent and for the
  value pseudo-node below a leaf), the flag that \<open>it.Leaf()\<close> reports (true on
  the value pseudo-node), and its children, each with the path segment leading
  to it. \<open>Missing\<close> is a reference whose node cannot be read from the database.
\<close>

datatype trie = Node hash bool "(bytes \<times> trie) list" | Missing hash

fun thash :: "trie \<Rightarrow> hash" where
  "thash (Node h l ks) = h"
| "thash (Missing h) = h"

fun tleaf :: "trie \<Rightarrow> bool" where
  "tleaf (Node h l ks) = l"
| "tleaf (Missing h) = False"

fun tkids :: "trie \<Rightarrow> (bytes \<times> trie) list" where
  "tkids (Node h l ks) = ks"
| "tkids (Missing h) = []"

fun isMissing :: "trie \<Rightarrow> bool" where
  "isMissing (Missing h) = True"
| "isMissing (Node h l ks) = False"

fun tsize :: "trie \<Rightarrow> nat" where
  "tsize (Node h l ks) = Suc (sum_list (map (\<lambda>k. tsize (snd k)) ks))"
| "tsize (Missing h) = 1"

definition ssize :: "(bytes \<times> trie) list \<Rightarrow> nat" where
  "ssize es = sum_list (map (\<lambda>k. tsize (snd k)) es)"

text \<open>
  \<open>trie.NodeIterator\<close>: a pre-order walk. \<open>itCur\<close> is the position (absolute
  path and node), \<open>None\<close> before the first \<open>Next\<close>, where \<open>Path()\<close> is nil;
  \<open>itStack\<close> holds the nodes still to come after the subtree of the position;
  \<open>itErr\<close> is what \<open>Error()\<close> reports. \<open>Next(descend)\<close> moves to the first child
  of the position when \<open>descend\<close> is set and to the next node after its subtree
  otherwise; it returns false at the end and at a node that cannot be read.
\<close>

record iter =
  itCur :: "(bytes \<times> trie) option"
  itStack :: "(bytes \<times> trie) list"
  itErr :: "string option"

definition NodeIterator :: "trie \<Rightarrow> iter" where
  "NodeIterator t = \<lparr>itCur = None, itStack = [([], t)], itErr = None\<rparr>"

fun childEntries :: "(bytes \<times> trie) option \<Rightarrow> (bytes \<times> trie) list" where
  "childEntries None = []"
| "childEntries (Some (p, n)) = map (\<lambda>(r, c). (p @ r, c)) (tkids n)"

definition pendingEntries :: "bool \<Rightarrow> iter \<Rightarrow> (bytes \<times> trie) list" where
  "pendingEntries descend it = (if descend then childEntries (itCur it) else []) @ itStack it"

definition itNext :: "bool \<Rightarrow> iter \<Rightarrow> bool \<times> iter" where
  "itNext descend it =
     (case pendingEntries descend it of
        [] \<Rightarrow> (False, \<lparr>itCur = None, itStack = [], itErr = None\<rparr>)
      | x # rest \<Rightarrow>
          if isMissing (snd x) then (False, it\<lparr>itErr := Some ''missing trie node''\<rparr>)
          else (True, \<lparr>itCur = Some x, itStack = rest, itErr = None\<rparr>))"

definition itPathNil :: "iter \<Rightarrow> bool" where
  "itPathNil it = (itCur it = None)"

definition itPath :: "iter \<Rightarrow> bytes" where
  "itPath it = (case itCur it of None \<Rightarrow> [] | Some (p, n) \<Rightarrow> p)"

definition itHash :: "iter \<Rightarrow> hash" where
  "itHash it = (case itCur it of None \<Rightarrow> nullHash | Some (p, n) \<Rightarrow> thash n)"

definition itLeaf :: "iter \<Rightarrow> bool" where
  "itLeaf it = (case itCur it of None \<Rightarrow> False | Some (p, n) \<Rightarrow> tleaf n)"

text \<open>
  \<open>LeafKey()\<close> is defined at a value position only: there it returns the key
  bytes of the path (the nibbles packed in pairs, the terminator dropped), and
  at any other position it panics with "not at leaf".
\<close>

fun decodeNibbles :: "bytes \<Rightarrow> bytes" where
  "decodeNibbles (a # b # rest) = (push_bit 4 a OR b) # decodeNibbles rest"
| "decodeNibbles rest = []"

definition hexToKeybytes :: "bytes \<Rightarrow> bytes res" where
  "hexToKeybytes hex =
     (let hex1 = (if hex \<noteq> [] \<and> last hex = 16 then butlast hex else hex)
      in if odd (length hex1) then Panic ''can not convert hex key of odd length''
         else Val (decodeNibbles hex1))"

definition itLeafKey :: "iter \<Rightarrow> bytes res" where
  "itLeafKey it = (if itLeaf it then hexToKeybytes (itPath it) else Panic ''not at leaf'')"

definition itError :: "iter \<Rightarrow> unit res" where
  "itError it = (case itErr it of None \<Rightarrow> Val () | Some e \<Rightarrow> Fail e)"

text \<open>
  \<open>s.stateDB.OpenTrie(it.Hash())\<close> at the position of an iterator: nodes are
  stored under their hash, so the trie opened is the subtree at that node. The
  zero hash opens the empty trie, whose iterator yields one root position with
  the zero hash and no children. The argument is the node at the position.
\<close>

definition emptyTrie :: trie where
  "emptyTrie = Node nullHash False []"

definition OpenTrieAt :: "trie \<Rightarrow> trie res" where
  "OpenTrieAt n =
     (if isMissing n then Fail ''missing trie node''
      else if IsNullHash (thash n) then Val emptyTrie
      else Val n)"

section \<open>pkg/snapshot/service.go: the collaborators of the walker\<close>

text \<open>pkg/types: \<open>Node\<close>; go-ethereum: \<open>types.StateAccount\<close>; service.go: \<open>nodeResult\<close>.\<close>

record node =
  NodeType :: nodeType
  Path :: bytes
  Key :: hash
  Value :: bytes

record account =
  Nonce :: "64 word"
  Balance :: nat
  Root :: hash
  CodeHash :: bytes

record nodeResult =
  node :: node
  elements :: "rlp list"

text \<open>The fields of \<open>Service\<close> that the walker reads; Go's \<open>uint\<close> is taken at 64 bits.\<close>

record service =
  watchingAddresses :: bool
  maxBatchSize :: "64 word"

text \<open>The header fields that \<open>CreateSnapshot\<close> reads.\<close>

record header =
  headerNumber :: "64 word"
  headerRoot :: hash

text \<open>
  What the service calls outside this repository's source files, as parameters:
  the trie database, RLP decoding, the path encodings and hashing of
  go-ethereum, the archive reads of \<open>rawdb\<close>, the \<open>Publisher\<close> interface (each
  method acting on the publisher's state \<open>'p\<close>), \<open>CommitOrRollback\<close>,
  \<open>keybytesToHex\<close>, the partitioner \<open>iter.SubtrieIterators\<close>, and the methods of
  the iterator tracker (\<open>restore\<close>, \<open>tracked\<close>, \<open>haltAndDump\<close>), which act on the
  recovery file.
\<close>

text \<open>
  The recovery file: \<open>None\<close> when there is no file, else its records
  \<open>(start_path, current_path)\<close>.
\<close>

type_synonym recoveryFile = "(bytes \<times> bytes) list option"

record ('p, 'tx) env =
  trieNode :: "hash \<Rightarrow> bytes res"
  rlpDecodeBytes :: "bytes \<Rightarrow> rlp list res"
  rlpDecodeAccount :: "bytes \<Rightarrow> account res"
  CompactToHex :: "bytes \<Rightarrow> bytes"
  HexToCompact :: "bytes \<Rightarrow> bytes"
  BytesToHash :: "bytes \<Rightarrow> hash"
  Keccak256 :: "bytes \<Rightarrow> bytes"
  emptyNode :: bytes
  keybytesToHex :: "bytes \<Rightarrow> bytes"
  ReadCode :: "hash \<Rightarrow> bytes"
  ReadCanonicalHash :: "64 word \<Rightarrow> hash"
  ReadHeader :: "hash \<Rightarrow> 64 word \<Rightarrow> header option"
  ReadHeadHeaderHash :: hash
  ReadHeaderNumber :: "hash \<Rightarrow> 64 word option"
  headerHashString :: "header \<Rightarrow> string"
  OpenTrie :: "hash \<Rightarrow> trie res"
  SubtrieIterators :: "trie \<Rightarrow> 64 word \<Rightarrow> iter list"
  pubBeginTx :: "'p \<Rightarrow> 'tx res \<times> 'p"
  pubPrepareTxForBatch :: "'tx \<Rightarrow> 64 word \<Rightarrow> 'p \<Rightarrow> 'tx res \<times> 'p"
  pubPublishHeader :: "header \<Rightarrow> 'p \<Rightarrow> unit res \<times> 'p"
  pubPublishStateNode :: "node \<Rightarrow> string \<Rightarrow> 'tx \<Rightarrow> 'p \<Rightarrow> unit res \<times> 'p"
  pubPublishStorageNode :: "node \<Rightarrow> string \<Rightarrow> bytes \<Rightarrow> 'tx \<Rightarrow> 'p \<Rightarrow> unit res \<times> 'p"
  pubPublishCode :: "hash \<Rightarrow> bytes \<Rightarrow> 'tx \<Rightarrow> 'p \<Rightarrow> unit res \<times> 'p"
  CommitOrRollback :: "'tx \<Rightarrow> string option \<Rightarrow> 'p \<Rightarrow> unit res \<times> 'p"
  trackerRestore :: "trie \<Rightarrow> recoveryFile \<Rightarrow> iter list option res \<times> recoveryFile"
  trackerTracked :: "iter \<Rightarrow> iter"
  trackerHaltAndDump :: "recoveryFile \<Rightarrow> unit res \<times> recoveryFile"

text \<open>
  \<open>emptyCodeHash\<close> and \<open>emptyContractRoot\<close>, the package variables of service.go.
\<close>

definition emptyCodeHash :: "('p, 'tx) env \<Rightarrow> bytes" where
  "emptyCodeHash env = Keccak256 env []"

definition emptyContractRoot :: "('p, 'tx) env \<Rightarrow> hash" where
  "emptyContractRoot env = BytesToHash env (Keccak256 env (emptyNode env))"

text \<open>
  The world the service acts on: the publisher's state, the recovery file, and
  the trace of the calls the service has made, in order (\<open>CallGo i\<close>: the
  goroutine of worker \<open>i\<close> is started).
\<close>

datatype 'tx call =
    CallPublishHeader header
  | CallBeginTx
  | CallPrepareTxForBatch 'tx "64 word"
  | CallPublishStateNode node string 'tx
  | CallPublishStorageNode node string bytes 'tx
  | CallPublishCode hash bytes 'tx
  | CallCommitOrRollback 'tx "string option"
  | CallRestore
  | CallGo nat
  | CallHaltAndDump

record ('p, 'tx) world =
  pub :: 'p
  recovery :: recoveryFile
  calls :: "'tx call list"

definition callPublishHeader ::
  "('p, 'tx) env \<Rightarrow> header \<Rightarrow> ('p, 'tx) world \<Rightarrow> unit res \<times> ('p, 'tx) world" where
  "callPublishHeader env h w =
     (case pubPublishHeader env h (pub w) of
        (r, p') \<Rightarrow> (r, w\<lparr>pub := p', calls := calls w @ [CallPublishHeader h]\<rparr>))"

definition callBeginTx ::
  "('p, 'tx) env \<Rightarrow> ('p, 'tx) world \<Rightarrow> 'tx res \<times> ('p, 'tx) world" where
  "callBeginTx env w =
     (case pubBeginTx env (pub w) of
        (r, p') \<Rightarrow> (r, w\<lparr>pub := p', calls := calls w @ [CallBeginTx]\<rparr>))"

definition callPrepareTxForBatch ::
  "('p, 'tx) env \<Rightarrow> 'tx \<Rightarrow> 64 word \<Rightarrow> ('p, 'tx) world \<Rightarrow> 'tx res \<times> ('p, 'tx) world" where
  "callPrepareTxForBatch env tx m w =
     (case pubPrepareTxForBatch env tx m (pub w) of
        (r, p') \<Rightarrow> (r, w\<lparr>pub := p', calls := calls w @ [CallPrepareTxForBatch tx m]\<rparr>))"

definition callPublishStateNode ::
  "('p, 'tx) env \<Rightarrow> node \<Rightarrow> string \<Rightarrow> 'tx \<Rightarrow> ('p, 'tx) world \<Rightarrow> unit res \<times> ('p, 'tx) world" where
  "callPublishStateNode env nd headerID tx w =
     (case pubPublishStateNode env nd headerID tx (pub w) of
        (r, p') \<Rightarrow> (r, w\<lparr>pub := p', calls := calls w @ [CallPublishStateNode nd headerID tx]\<rparr>))"

definition callPublishStorageNode ::
  "('p, 'tx) env \<Rightarrow> node \<Rightarrow> string \<Rightarrow> bytes \<Rightarrow> 'tx \<Rightarrow> ('p, 'tx) world
     \<Rightarrow> unit res \<times> ('p, 'tx) world" where
  "callPublishStorageNode env nd headerID statePath tx w =
     (case pubPublishStorageNode env nd headerID statePath tx (pub w) of
        (r, p') \<Rightarrow>
          (r, w\<lparr>pub := p', calls := calls w @ [CallPublishStorageNode nd headerID statePath tx]\<rparr>))"

definition callPublishCode ::
  "('p, 'tx) env \<Rightarrow> hash \<Rightarrow> bytes \<Rightarrow> 'tx \<Rightarrow> ('p, 'tx) world \<Rightarrow> unit res \<times> ('p, 'tx) world" where
  "callPublishCode env codeHash codeBytes tx w =
     (case pubPublishCode env codeHash codeBytes tx (pub w) of
        (r, p') \<Rightarrow> (r, w\<lparr>pub := p', calls := calls w @ [CallPublishCode codeHash codeBytes tx]\<rparr>))"

definition callCommitOrRollback ::
  "('p, 'tx) env \<Rightarrow> 'tx \<Rightarrow> string option \<Rightarrow> ('p, 'tx) world \<Rightarrow> unit res \<times> ('p, 'tx) world" where
  "callCommitOrRollback env tx err w =
     (case CommitOrRollback env tx err (pub w) of
        (r, p') \<Rightarrow> (r, w\<lparr>pub := p', calls := calls w @ [CallCommitOrRollback tx err]\<rparr>))"

definition callRestore ::
  "('p, 'tx) env \<Rightarrow> trie \<Rightarrow> ('p, 'tx) world \<Rightarrow> iter list option res \<times> ('p, 'tx) world" where
  "callRestore env tree w =
     (case trackerRestore env tree (recovery w) of
        (r, f') \<Rightarrow> (r, w\<lparr>recovery := f', calls := calls w @ [CallRestore]\<rparr>))"

definition callHaltAndDump ::
  "('p, 'tx) env \<Rightarrow> ('p, 'tx) world \<Rightarrow> unit res \<times> ('p, 'tx) world" where
  "callHaltAndDump env w =
     (case trackerHaltAndDump env (recovery w) of
        (r, f') \<Rightarrow> (r, w\<lparr>recovery := f', calls := calls w @ [CallHaltAndDump]\<rparr>))"

section \<open>pkg/snapshot/service.go: the walker\<close>

definition resolveNode :: "('p, 'tx) env \<Rightarrow> bytes \<Rightarrow> iter \<Rightarrow> nodeResult option res" where
  "resolveNode env nodePath it =
     (if itLeaf it then Val None
      else if IsNullHash (itHash it) then Val None
      else (case trieNode env (itHash it) of
              Fail e \<Rightarrow> Fail e
            | Panic e \<Rightarrow> Panic e
            | Val n \<Rightarrow>
                (case rlpDecodeBytes env n of
                   Fail e \<Rightarrow> Fail e
                 | Panic e \<Rightarrow> Panic e
                 | Val elems \<Rightarrow>
                     (case CheckKeyType elems of
                        Fail e \<Rightarrow> Fail e
                      | Panic e \<Rightarrow> Panic e
                      | Val (ty, Some e) \<Rightarrow> Fail e
                      | Val (ty, None) \<Rightarrow>
                          Val (Some \<lparr>node = \<lparr>NodeType = ty, Path = nodePath, Key = nullHash, Value = n\<rparr>,
                                     elements = elems\<rparr>)))))"

text \<open>
  The condition of the \<open>continue\<close> at lines 248 and 287:
  \<open>s.watchingAddresses && !validPath(path, seekingPaths)\<close>.
\<close>

definition skipPath :: "service \<Rightarrow> bytes \<Rightarrow> bytes list \<Rightarrow> bool" where
  "skipPath s path seekingPaths = (watchingAddresses s \<and> \<not> validPath path seekingPaths)"

text \<open>
  Lines 329-333, and again 430-434: the key of a leaf from the path of the
  node and its first element. \<open>res.elements[0].([]byte)\<close> panics on a list and
  \<open>encodedPath[1:]\<close> on an empty slice.
\<close>

definition leafKey :: "('p, 'tx) env \<Rightarrow> bytes \<Rightarrow> rlp list \<Rightarrow> hash res" where
  "leafKey env path elems =
     (case elems of
        [] \<Rightarrow> Panic ''index out of range [0] with length 0''
      | RList l # rest \<Rightarrow> Panic ''interface conversion: interface {} is not []uint8''
      | RBytes compact # rest \<Rightarrow>
          (let partialPath = CompactToHex env compact;
               valueNodePath = path @ partialPath;
               encodedPath = HexToCompact env valueNodePath
           in if encodedPath = [] then Panic ''slice bounds out of range [1:0]''
              else Val (BytesToHash env (tl encodedPath))))"

text \<open>The \<open>switch\<close> of \<open>storageSnapshot\<close>, lines 428-439: the key of the storage node.\<close>

definition storageNodeKey :: "('p, 'tx) env \<Rightarrow> node \<Rightarrow> rlp list \<Rightarrow> node res" where
  "storageNodeKey env nd elems =
     (case NodeType nd of
        Leaf \<Rightarrow>
          (case leafKey env (Path nd) elems of
             Fail e \<Rightarrow> Fail e
           | Panic e \<Rightarrow> Panic e
           | Val k \<Rightarrow> Val (nd\<lparr>Key := k\<rparr>))
      | Extension \<Rightarrow> Val (nd\<lparr>Key := BytesToHash env []\<rparr>)
      | Branch \<Rightarrow> Val (nd\<lparr>Key := BytesToHash env []\<rparr>)
      | Removed \<Rightarrow> Fail ''unexpected node type''
      | Unknown \<Rightarrow> Fail ''unexpected node type'')"

lemma ssize_append [simp]: "ssize (xs @ ys) = ssize xs + ssize ys"
  by (simp add: ssize_def)

lemma ssize_Cons [simp]: "ssize (x # xs) = tsize (snd x) + ssize xs"
  by (simp add: ssize_def)

lemma ssize_Nil [simp]: "ssize [] = 0"
  by (simp add: ssize_def)

lemma tsize_pos [simp]: "0 < tsize t"
  by (cases t) auto

lemma ssize_childEntries: "ssize (childEntries (Some x)) < tsize (snd x)"
proof (cases x)
  case (Pair p n)
  show ?thesis
    unfolding Pair by (cases n) (simp_all add: ssize_def comp_def case_prod_beta)
qed

lemma itNext_True:
  assumes "itNext d it = (True, it')"
  shows "\<exists>x rest. pendingEntries d it = x # rest \<and> \<not> isMissing (snd x) \<and>
           it' = \<lparr>itCur = Some x, itStack = rest, itErr = None\<rparr>"
  using assms by (auto simp: itNext_def split: list.splits if_splits)

lemma itNext_True_pending:
  assumes "itNext d it = (True, it')"
  shows "ssize (pendingEntries True it') < ssize (pendingEntries d it)"
    and "ssize (pendingEntries False it') < ssize (pendingEntries d it)"
proof -
  from itNext_True [OF assms] obtain x rest where
    p: "pendingEntries d it = x # rest" and
    it': "it' = \<lparr>itCur = Some x, itStack = rest, itErr = None\<rparr>" by blast
  have f: "pendingEntries False it' = rest" and t: "pendingEntries True it' = childEntries (Some x) @ rest"
    by (simp_all add: it' pendingEntries_def)
  show "ssize (pendingEntries False it') < ssize (pendingEntries d it)"
    unfolding f p by simp
  from ssize_childEntries [of x] show "ssize (pendingEntries True it') < ssize (pendingEntries d it)"
    unfolding t p by simp
qed

function storageLoop ::
  "('p, 'tx) env \<Rightarrow> service \<Rightarrow> string \<Rightarrow> bytes \<Rightarrow> iter \<Rightarrow> 'tx \<Rightarrow> ('p, 'tx) world
     \<Rightarrow> 'tx res \<times> ('p, 'tx) world" where
  "storageLoop env s headerID statePath it tx w =
     (case itNext True it of
        (False, it') \<Rightarrow>
          (case itError it' of
             Fail e \<Rightarrow> (Fail e, w)
           | Panic e \<Rightarrow> (Panic e, w)
           | Val u \<Rightarrow> (Val tx, w))
      | (True, it') \<Rightarrow>
          (case resolveNode env (itPath it') it' of
             Fail e \<Rightarrow> (Fail e, w)
           | Panic e \<Rightarrow> (Panic e, w)
           | Val None \<Rightarrow> storageLoop env s headerID statePath it' tx w
           | Val (Some res) \<Rightarrow>
               (case callPrepareTxForBatch env tx (maxBatchSize s) w of
                  (Fail e, w1) \<Rightarrow> (Fail e, w1)
                | (Panic e, w1) \<Rightarrow> (Panic e, w1)
                | (Val tx1, w1) \<Rightarrow>
                    (case trieNode env (itHash it') of
                       Fail e \<Rightarrow> (Fail e, w1)
                     | Panic e \<Rightarrow> (Panic e, w1)
                     | Val nodeData \<Rightarrow>
                         (case storageNodeKey env ((node res)\<lparr>Value := nodeData\<rparr>) (elements res) of
                            Fail e \<Rightarrow> (Fail e, w1)
                          | Panic e \<Rightarrow> (Panic e, w1)
                          | Val nd \<Rightarrow>
                              (case callPublishStorageNode env nd headerID statePath tx1 w1 of
                                 (Fail e, w2) \<Rightarrow> (Fail e, w2)
                               | (Panic e, w2) \<Rightarrow> (Panic e, w2)
                               | (Val u, w2) \<Rightarrow> storageLoop env s headerID statePath it' tx1 w2))))))"
  by pat_completeness auto
termination
  by (relation "measure (\<lambda>(env, s, headerID, statePath, it, tx, w). ssize (pendingEntries True it))")
    (auto dest: itNext_True_pending [OF sym])


definition storageSnapshot ::
  "('p, 'tx) env \<Rightarrow> service \<Rightarrow> hash \<Rightarrow> string \<Rightarrow> bytes \<Rightarrow> 'tx \<Rightarrow> ('p, 'tx) world
     \<Rightarrow> 'tx res \<times> ('p, 'tx) world" where
  "storageSnapshot env s sr headerID statePath tx w =
     (if sr = emptyContractRoot env then (Val tx, w)
      else (case OpenTrie env sr of
              Fail e \<Rightarrow> (Fail e, w)
            | Panic e \<Rightarrow> (Panic e, w)
            | Val sTrie \<Rightarrow> storageLoop env s headerID statePath (NodeIterator sTrie) tx w))"

text \<open>
  Lines 339-351 of \<open>createNodeSnapshot\<close>: the code of the account, read from the
  archive and published unless the code hash is that of the empty code. When no
  code bytes come back, line 344 evaluates \<open>it.LeafKey()\<close> for the log entry before
  line 345 returns the error "missing code".
\<close>

definition publishAccountCode ::
  "('p, 'tx) env \<Rightarrow> account \<Rightarrow> iter \<Rightarrow> 'tx \<Rightarrow> ('p, 'tx) world
     \<Rightarrow> unit res \<times> ('p, 'tx) world" where
  "publishAccountCode env acct it tx w =
     (if CodeHash acct \<noteq> emptyCodeHash env then
        (let codeHash = BytesToHash env (CodeHash acct);
             codeBytes = ReadCode env codeHash
         in if length codeBytes = 0 then
              (case itLeafKey it of
                 Fail e \<Rightarrow> (Fail e, w)
               | Panic e \<Rightarrow> (Panic e, w)
               | Val k \<Rightarrow> (Fail ''missing code'', w))
            else callPublishCode env codeHash codeBytes tx w)
      else (Val (), w))"

text \<open>
  The \<open>case Leaf\<close> of \<open>createNodeSnapshot\<close>, lines 321-355, followed by the
  \<open>return it.Error()\<close> of line 364. \<open>res.elements[1].([]byte)\<close> panics on a list.
\<close>

definition leafSnapshot ::
  "('p, 'tx) env \<Rightarrow> service \<Rightarrow> 'tx \<Rightarrow> nodeResult \<Rightarrow> iter \<Rightarrow> string \<Rightarrow> ('p, 'tx) world
     \<Rightarrow> unit res \<times> ('p, 'tx) world" where
  "leafSnapshot env s tx res it headerID w =
     (if length (elements res) < 2 then (Panic ''index out of range [1]'', w)
      else (case elements res ! 1 of
              RList l \<Rightarrow> (Panic ''interface conversion: interface {} is not []uint8'', w)
            | RBytes accountBytes \<Rightarrow>
                (case rlpDecodeAccount env accountBytes of
                   Fail e \<Rightarrow> (Fail (''error decoding account for leaf node: '' @ e), w)
                 | Panic e \<Rightarrow> (Panic e, w)
                 | Val acct \<Rightarrow>
                     (case leafKey env (Path (node res)) (elements res) of
                        Fail e \<Rightarrow> (Fail e, w)
                      | Panic e \<Rightarrow> (Panic e, w)
                      | Val k \<Rightarrow>
                          (case callPublishStateNode env ((node res)\<lparr>Key := k\<rparr>) headerID tx w of
                             (Fail e, w2) \<Rightarrow> (Fail e, w2)
                           | (Panic e, w2) \<Rightarrow> (Panic e, w2)
                           | (Val u, w2) \<Rightarrow>
                               (case publishAccountCode env acct it tx w2 of
                                  (Fail e, w3) \<Rightarrow> (Fail e, w3)
                                | (Panic e, w3) \<Rightarrow> (Panic e, w3)
                                | (Val u', w3) \<Rightarrow>
                                    (case storageSnapshot env s (Root acct) headerID
                                            (Path (node res)) tx w3 of
                                       (Fail e, w4) \<Rightarrow>
                                         (Fail (''failed building storage snapshot for account: '' @ e), w4)
                                     | (Panic e, w4) \<Rightarrow> (Panic e, w4)
                                     | (Val tx', w4) \<Rightarrow> (itError it, w4))))))))"

definition createNodeSnapshot ::
  "('p, 'tx) env \<Rightarrow> service \<Rightarrow> 'tx \<Rightarrow> bytes \<Rightarrow> iter \<Rightarrow> string \<Rightarrow> bytes list \<Rightarrow> ('p, 'tx) world
     \<Rightarrow> unit res \<times> ('p, 'tx) world" where
  "createNodeSnapshot env s tx path it headerID seekingPaths w =
     (case resolveNode env path it of
        Fail e \<Rightarrow> (Fail e, w)
      | Panic e \<Rightarrow> (Panic e, w)
      | Val None \<Rightarrow> (Val (), w)
      | Val (Some res) \<Rightarrow>
          (case callPrepareTxForBatch env tx (maxBatchSize s) w of
             (Fail e, w1) \<Rightarrow> (Fail e, w1)
           | (Panic e, w1) \<Rightarrow> (Panic e, w1)
           | (Val tx1, w1) \<Rightarrow>
               (case NodeType (node res) of
                  Leaf \<Rightarrow> leafSnapshot env s tx1 res it headerID w1
                | Extension \<Rightarrow>
                    (case callPublishStateNode env ((node res)\<lparr>Key := BytesToHash env []\<rparr>)
                            headerID tx1 w1 of
                       (Fail e, w2) \<Rightarrow> (Fail e, w2)
                     | (Panic e, w2) \<Rightarrow> (Panic e, w2)
                     | (Val u, w2) \<Rightarrow> (itError it, w2))
                | Branch \<Rightarrow>
                    (case callPublishStateNode env ((node res)\<lparr>Key := BytesToHash env []\<rparr>)
                            headerID tx1 w1 of
                       (Fail e, w2) \<Rightarrow> (Fail e, w2)
                     | (Panic e, w2) \<Rightarrow> (Panic e, w2)
                     | (Val u, w2) \<Rightarrow> (itError it, w2))
                | Removed \<Rightarrow> (Fail ''unexpected node type'', w1)
                | Unknown \<Rightarrow> (Fail ''unexpected node type'', w1))))"

lemma itNext_NodeIterator:
  "\<not> isMissing t \<Longrightarrow>
     itNext True (NodeIterator t) = (True, \<lparr>itCur = Some ([], t), itStack = [], itErr = None\<rparr>)"
  by (simp add: itNext_def NodeIterator_def pendingEntries_def)

lemma OpenTrieAt_Val:
  assumes "OpenTrieAt n = Val t"
  shows "\<not> isMissing t" and "ssize (childEntries (Some ([], t))) < tsize n"
proof -
  from assms have t: "t = emptyTrie \<or> (t = n \<and> \<not> isMissing n)"
    by (auto simp: OpenTrieAt_def split: if_splits)
  then show "\<not> isMissing t"
    by (auto simp: emptyTrie_def)
  from t show "ssize (childEntries (Some ([], t))) < tsize n"
    using ssize_childEntries [of "([], n)"] by (auto simp: emptyTrie_def)
qed

lemma OpenTrieAt_pending:
  assumes "OpenTrieAt n = Val t"
  shows "ssize (pendingEntries True (snd (itNext True (NodeIterator t)))) < tsize n"
  using OpenTrieAt_Val [OF assms] by (simp add: itNext_NodeIterator pendingEntries_def)

text \<open>The node at the position of an iterator, whose hash \<open>it.Hash()\<close> reports.\<close>

definition itNode :: "iter \<Rightarrow> trie" where
  "itNode it = (case itCur it of None \<Rightarrow> emptyTrie | Some (p, n) \<Rightarrow> n)"

lemma itNext_True_itNode:
  assumes "itNext d it = (True, it')"
  shows "tsize (itNode it') \<le> ssize (pendingEntries d it)"
proof -
  from itNext_True [OF assms] obtain x rest where
    p: "pendingEntries d it = x # rest" and
    it': "it' = \<lparr>itCur = Some x, itStack = rest, itErr = None\<rparr>" by blast
  have "itNode it' = snd x"
    by (cases x) (simp add: it' itNode_def)
  then show ?thesis
    unfolding p by simp
qed

function createSubTrieSnapshot ::
  "('p, 'tx) env \<Rightarrow> service \<Rightarrow> 'tx \<Rightarrow> bytes \<Rightarrow> trie \<Rightarrow> string \<Rightarrow> bytes list \<Rightarrow> ('p, 'tx) world
     \<Rightarrow> unit res \<times> ('p, 'tx) world"
  and subTrieLoop ::
  "('p, 'tx) env \<Rightarrow> service \<Rightarrow> 'tx \<Rightarrow> bytes \<Rightarrow> string \<Rightarrow> bytes list \<Rightarrow> bool \<Rightarrow> iter
     \<Rightarrow> ('p, 'tx) world \<Rightarrow> unit res \<times> ('p, 'tx) world" where
  "createSubTrieSnapshot env s tx prefixPath n headerID seekingPaths w =
     (case OpenTrieAt n of
        Fail e \<Rightarrow> (Fail e, w)
      | Panic e \<Rightarrow> (Panic e, w)
      | Val subTrie \<Rightarrow>
          subTrieLoop env s tx prefixPath headerID seekingPaths True
            (snd (itNext True (NodeIterator subTrie))) w)"
| "subTrieLoop env s tx prefixPath headerID seekingPaths descend subTrieIt w =
     (case itNext descend subTrieIt of
        (False, it') \<Rightarrow> (itError it', w)
      | (True, it') \<Rightarrow>
          (if skipPath s (prefixPath @ itPath it') seekingPaths
           then subTrieLoop env s tx prefixPath headerID seekingPaths False it' w
           else (case createNodeSnapshot env s tx (prefixPath @ itPath it') it' headerID
                        seekingPaths w of
                   (Fail e, w1) \<Rightarrow> (Fail e, w1)
                 | (Panic e, w1) \<Rightarrow> (Panic e, w1)
                 | (Val u, w1) \<Rightarrow>
                     (case createSubTrieSnapshot env s tx (prefixPath @ itPath it') (itNode it')
                             headerID seekingPaths w1 of
                        (Fail e, w2) \<Rightarrow> (Fail e, w2)
                      | (Panic e, w2) \<Rightarrow> (Panic e, w2)
                      | (Val u', w2) \<Rightarrow>
                          subTrieLoop env s tx prefixPath headerID seekingPaths False it' w2))))"
  by pat_completeness auto


termination
proof (relation "measure (\<lambda>a. case a of
          Inl (env, s, tx, prefixPath, n, headerID, seekingPaths, w) \<Rightarrow> 2 * tsize n
        | Inr (env, s, tx, prefixPath, headerID, seekingPaths, descend, it, w) \<Rightarrow>
            2 * ssize (pendingEntries descend it) + 1)", goal_cases)
  case 1
  show ?case by simp
next
  case (2 env s tx prefixPath n headerID seekingPaths w subTrie)
  then show ?case
    using OpenTrieAt_pending [of n subTrie] by simp
next
  case (3 env s tx prefixPath headerID seekingPaths descend subTrieIt w b it')
  then show ?case
    using itNext_True_pending(2) [of descend subTrieIt it'] by simp
next
  case (4 env s tx prefixPath headerID seekingPaths descend subTrieIt w b it')
  then show ?case
    using itNext_True_itNode [of descend subTrieIt it'] by simp
next
  case (5 env s tx prefixPath headerID seekingPaths descend subTrieIt w b it')
  then show ?case
    using itNext_True_pending(2) [of descend subTrieIt it'] by simp
qed



text \<open>The loop of \<open>createSnapshot\<close>, lines 243-262.\<close>

function createSnapshotLoop ::
  "('p, 'tx) env \<Rightarrow> service \<Rightarrow> 'tx \<Rightarrow> string \<Rightarrow> bytes list \<Rightarrow> bool \<Rightarrow> iter \<Rightarrow> ('p, 'tx) world
     \<Rightarrow> unit res \<times> ('p, 'tx) world" where
  "createSnapshotLoop env s tx headerID seekingPaths descend it w =
     (case itNext descend it of
        (False, it') \<Rightarrow> (itError it', w)
      | (True, it') \<Rightarrow>
          (if skipPath s (itPath it') seekingPaths
           then createSnapshotLoop env s tx headerID seekingPaths False it' w
           else (case createNodeSnapshot env s tx (itPath it') it' headerID seekingPaths w of
                   (Fail e, w1) \<Rightarrow> (Fail e, w1)
                 | (Panic e, w1) \<Rightarrow> (Panic e, w1)
                 | (Val u, w1) \<Rightarrow>
                     (case createSubTrieSnapshot env s tx (itPath it') (itNode it') headerID
                             seekingPaths w1 of
                        (Fail e, w2) \<Rightarrow> (Fail e, w2)
                      | (Panic e, w2) \<Rightarrow> (Panic e, w2)
                      | (Val u', w2) \<Rightarrow>
                          createSnapshotLoop env s tx headerID seekingPaths False it' w2))))"
  by pat_completeness auto
termination
  by (relation "measure (\<lambda>(env, s, tx, headerID, seekingPaths, descend, it, w).
                   ssize (pendingEntries descend it))")
    (auto dest: itNext_True_pending [OF sym])

text \<open>
  \<open>createSnapshot\<close>. The deferred \<open>CommitOrRollback(tx, err)\<close> runs on every way
  out once the transaction is open; the \<open>err\<close> it reads is the variable set by
  \<open>BeginTx\<close>, which is nil there, and its result goes to that variable, not to
  the caller.
\<close>

definition createSnapshot ::
  "('p, 'tx) env \<Rightarrow> service \<Rightarrow> iter \<Rightarrow> string \<Rightarrow> bytes list \<Rightarrow> ('p, 'tx) world
     \<Rightarrow> unit res \<times> ('p, 'tx) world" where
  "createSnapshot env s it headerID seekingPaths w =
     (case callBeginTx env w of
        (Fail e, w0) \<Rightarrow> (Fail e, w0)
      | (Panic e, w0) \<Rightarrow> (Panic e, w0)
      | (Val tx, w0) \<Rightarrow>
          (case (if itPathNil it then
                   (case createNodeSnapshot env s tx (itPath (snd (itNext True it)))
                           (snd (itNext True it)) headerID seekingPaths w0 of
                      (Fail e, w1) \<Rightarrow> (Fail e, w1)
                    | (Panic e, w1) \<Rightarrow> (Panic e, w1)
                    | (Val u, w1) \<Rightarrow>
                        createSnapshotLoop env s tx headerID seekingPaths
                          (itPath (snd (itNext True it)) = []) (snd (itNext True it)) w1)
                 else createSnapshotLoop env s tx headerID seekingPaths (itPath it = []) it w0) of
             (r, w2) \<Rightarrow>
               (case callCommitOrRollback env tx None w2 of
                  (Panic e, w3) \<Rightarrow> (Panic e, w3)
                | (Fail e, w3) \<Rightarrow> (r, w3)
                | (Val u, w3) \<Rightarrow> (r, w3))))"

section \<open>pkg/snapshot/service.go: the coordinator\<close>

text \<open>
  \<open>SnapshotParams\<close>. The watched addresses are a Go map used as a set; the list
  is the order in which \<open>range\<close> happens to visit them.
\<close>

record SnapshotParams =
  WatchedAddresses :: "bytes list"
  Height :: "64 word"
  Workers :: "64 word"

text \<open>
  \<open>createSnapshotAsync\<close> starts one goroutine per iterator and returns the
  error it receives first, or nil when all are done. The goroutines run
  concurrently; the model takes the schedule in which they run one after the
  other, in the order they were started, before the coordinator's \<open>select\<close>, and
  the error received is that of the first worker in that order that failed. A
  panic in a goroutine ends the process.
\<close>

fun runWorkers ::
  "('p, 'tx) env \<Rightarrow> service \<Rightarrow> iter list \<Rightarrow> string \<Rightarrow> bytes list \<Rightarrow> ('p, 'tx) world
     \<Rightarrow> unit res list \<times> ('p, 'tx) world" where
  "runWorkers env s [] headerID seekingPaths w = ([], w)"
| "runWorkers env s (it # iters) headerID seekingPaths w =
     (case createSnapshot env s it headerID seekingPaths w of
        (r, w1) \<Rightarrow>
          (case runWorkers env s iters headerID seekingPaths w1 of
             (rs, w2) \<Rightarrow> (r # rs, w2)))"

fun firstError :: "unit res list \<Rightarrow> unit res" where
  "firstError [] = Val ()"
| "firstError (Val u # rs) = firstError rs"
| "firstError (Fail e # rs) = (case firstError rs of Panic p \<Rightarrow> Panic p | r \<Rightarrow> Fail e)"
| "firstError (Panic e # rs) = Panic e"

definition createSnapshotAsync ::
  "('p, 'tx) env \<Rightarrow> service \<Rightarrow> iter list \<Rightarrow> string \<Rightarrow> bytes list \<Rightarrow> ('p, 'tx) world
     \<Rightarrow> unit res \<times> ('p, 'tx) world" where
  "createSnapshotAsync env s iters headerID seekingPaths w =
     (case runWorkers env s iters headerID seekingPaths
             (w\<lparr>calls := calls w @ map CallGo [0..<length iters]\<rparr>) of
        (rs, w1) \<Rightarrow> (firstError rs, w1))"

text \<open>
  Lines 151-155 of \<open>CreateSnapshot\<close>: the iterators go to \<open>createSnapshotAsync\<close>
  when \<open>len(iters) > 0\<close>, and \<open>iters[0]\<close> goes to \<open>createSnapshot\<close> otherwise.
  Indexing an empty slice panics.
\<close>

definition dispatchIterators ::
  "('p, 'tx) env \<Rightarrow> service \<Rightarrow> iter list \<Rightarrow> string \<Rightarrow> bytes list \<Rightarrow> ('p, 'tx) world
     \<Rightarrow> unit res \<times> ('p, 'tx) world" where
  "dispatchIterators env s iters headerID paths w =
     (if length iters > 0 then createSnapshotAsync env s iters headerID paths w
      else (case iters of
              [] \<Rightarrow> (Panic ''index out of range [0] with length 0'', w)
            | it # rest \<Rightarrow> createSnapshot env s it headerID paths w))"

text \<open>
  \<open>CreateSnapshot\<close>. The service is returned with the \<open>watchingAddresses\<close> it was
  given at line 90. The deferred \<open>haltAndDump\<close> is registered at line 144 and
  runs on every way out after that line, also when \<open>iters[0]\<close> panics; its error
  is logged only.
\<close>

definition CreateSnapshot ::
  "('p, 'tx) env \<Rightarrow> service \<Rightarrow> SnapshotParams \<Rightarrow> ('p, 'tx) world
     \<Rightarrow> unit res \<times> service \<times> ('p, 'tx) world" where
  "CreateSnapshot env s params w =
     (let paths = map (\<lambda>addr. keybytesToHex env (Keccak256 env addr)) (WatchedAddresses params);
          s1 = s\<lparr>watchingAddresses := (length paths > 0)\<rparr>;
          hash = ReadCanonicalHash env (Height params)
      in case ReadHeader env hash (Height params) of
           None \<Rightarrow> (Fail ''unable to read canonical header'', s1, w)
         | Some hdr \<Rightarrow>
             (case callPublishHeader env hdr w of
                (Fail e, w1) \<Rightarrow> (Fail e, s1, w1)
              | (Panic e, w1) \<Rightarrow> (Panic e, s1, w1)
              | (Val u, w1) \<Rightarrow>
                  (case OpenTrie env (headerRoot hdr) of
                     Fail e \<Rightarrow> (Fail e, s1, w1)
                   | Panic e \<Rightarrow> (Panic e, s1, w1)
                   | Val tree \<Rightarrow>
                       (case callRestore env tree w1 of
                          (Fail e, w2) \<Rightarrow> (Fail e, s1, w2)
                        | (Panic e, w2) \<Rightarrow> (Panic e, s1, w2)
                        | (Val restored, w2) \<Rightarrow>
                            (if (case restored of
                                   Some iters \<Rightarrow> Workers params < of_nat (length iters)
                                 | None \<Rightarrow> False)
                             then (Fail ''number of recovered workers is greater than number configured'',
                                   s1, w2)
                             else
                               (case dispatchIterators env s1
                                       (case restored of
                                          Some iters \<Rightarrow> iters
                                        | None \<Rightarrow>
                                            map (trackerTracked env)
                                              (if 1 < Workers params
                                               then SubtrieIterators env tree (Workers params)
                                               else [NodeIterator tree]))
                                       (headerHashString env hdr) paths w2 of
                                  (r, w3) \<Rightarrow>
                                    (case callHaltAndDump env w3 of
                                       (Panic e, w4) \<Rightarrow> (Panic e, s1, w4)
                                     | (Fail e, w4) \<Rightarrow> (r, s1, w4)
                                     | (Val u', w4) \<Rightarrow> (r, s1, w4))))))))"

definition CreateLatestSnapshot ::
  "('p, 'tx) env \<Rightarrow> service \<Rightarrow> 64 word \<Rightarrow> bytes list \<Rightarrow> ('p, 'tx) world
     \<Rightarrow> unit res \<times> service \<times> ('p, 'tx) world" where
  "CreateLatestSnapshot env s workers watchedAddresses w =
     (let hash = ReadHeadHeaderHash env
      in case ReadHeaderNumber env hash of
           None \<Rightarrow> (Fail ''unable to read header height for header hash'', s, w)
         | Some height \<Rightarrow>
             CreateSnapshot env s
               \<lparr>WatchedAddresses = watchedAddresses, Height = height, Workers = workers\<rparr> w)"

section \<open>A small chain for running the model\<close>

text \<open>
  The path encodings and \<open>BytesToHash\<close> as go-ethereum computes them, and
  stand-ins for the rest of the collaborators, over a state trie with two
  accounts.
\<close>

definition demo_keybytesToHex :: "bytes \<Rightarrow> bytes" where
  "demo_keybytesToHex str = concat (map (\<lambda>b. [b div 16, b mod 16]) str) @ [16]"

definition demo_HexToCompact :: "bytes \<Rightarrow> bytes" where
  "demo_HexToCompact hex =
     (let terminator = (hex \<noteq> [] \<and> last hex = 16);
          hex1 = (if terminator then butlast hex else hex);
          flag = (if terminator then 32 else 0)
      in if odd (length hex1) then (flag OR 16 OR hd hex1) # decodeNibbles (tl hex1)
         else flag # decodeNibbles hex1)"

definition demo_CompactToHex :: "bytes \<Rightarrow> bytes" where
  "demo_CompactToHex compact =
     (if compact = [] then []
      else (let base = demo_keybytesToHex compact;
                base1 = (if hd base < 2 then butlast base else base)
            in drop (2 - unat (hd base1 AND 1)) base1))"

definition demo_BytesToHash :: "bytes \<Rightarrow> hash" where
  "demo_BytesToHash b =
     (if 32 < length b then drop (length b - 32) b else replicate (32 - length b) 0 @ b)"

definition demo_value :: trie where
  "demo_value = Node nullHash True []"

definition demo_storage :: trie where
  "demo_storage = Node (replicate 32 0xa3) False [([1, 2, 16], demo_value)]"

text \<open>
  The state trie: a branch at the root; below nibble 1 an extension with key
  nibble \<open>a\<close> leading to the leaf of the account with key \<open>1ac\<close>; below nibble 2
  the leaf of the account with key \<open>2b\<close>, which has code and storage. Below
  each leaf is its value pseudo-node, at the full key with the terminator 16.
\<close>

definition demo_trie :: trie where
  "demo_trie =
     Node (replicate 32 0xa0) False
       [([1], Node (replicate 32 0xa1) False
                [([0xa], Node (replicate 32 0xa4) False [([0xc, 16], demo_value)])]),
        ([2], Node (replicate 32 0xa2) False [([0xb, 16], demo_value)])]"

definition demo_account :: "bytes \<Rightarrow> account res" where
  "demo_account b =
     (if b = [1] then
        Val \<lparr>Nonce = 0, Balance = 0, Root = replicate 32 0x56, CodeHash = replicate 32 0xc5\<rparr>
      else if b = [2] then
        Val \<lparr>Nonce = 1, Balance = 7, Root = replicate 32 0x77, CodeHash = replicate 32 0xc0\<rparr>
      else Fail ''rlp: expected input list for types.StateAccount'')"

definition demo_decode :: "bytes \<Rightarrow> rlp list res" where
  "demo_decode n =
     (if n = [0xf0] then Val (replicate 17 (RBytes []))
      else if n = [0xf1] then Val [RBytes [0x1a], RBytes (replicate 32 0xa4)]
      else if n = [0xf4] then Val [RBytes [0x3c], RBytes [1]]
      else if n = [0xf2] then Val [RBytes [0x3b], RBytes [2]]
      else if n = [0xf3] then Val [RBytes [0x20, 0x12], RBytes [5]]
      else Fail ''rlp: value size exceeds available input length'')"

text \<open>The trie database, keyed by the first byte of the hash.\<close>

definition demo_node :: "hash \<Rightarrow> bytes res" where
  "demo_node h =
     (case h of
        [] \<Rightarrow> Fail ''missing trie node''
      | b # rest \<Rightarrow>
          if b = 0xa0 then Val [0xf0]
          else if b = 0xa1 then Val [0xf1]
          else if b = 0xa4 then Val [0xf4]
          else if b = 0xa2 then Val [0xf2]
          else if b = 0xa3 then Val [0xf3]
          else Fail ''missing trie node'')"

definition demo_env :: "(nat, nat) env" where
  "demo_env =
     \<lparr> trieNode = demo_node,
       rlpDecodeBytes = demo_decode,
       rlpDecodeAccount = demo_account,
       CompactToHex = demo_CompactToHex,
       HexToCompact = demo_HexToCompact,
       BytesToHash = demo_BytesToHash,
       Keccak256 = (\<lambda>b. if b = [] then replicate 32 0xc5 else if b = [0x80] then replicate 32 0x56
                          else replicate 31 0 @ [hd b]),
       emptyNode = [0x80],
       keybytesToHex = demo_keybytesToHex,
       ReadCode = (\<lambda>h. if take 1 h = [0xc0] then [0x60, 0x00] else []),
       ReadCanonicalHash = (\<lambda>n. replicate 32 0x11),
       ReadHeader = (\<lambda>h n. if n = 5 then Some \<lparr>headerNumber = 5, headerRoot = replicate 32 0xa0\<rparr>
                             else None),
       ReadHeadHeaderHash = replicate 32 0x11,
       ReadHeaderNumber = (\<lambda>h. Some 5),
       headerHashString = (\<lambda>h. ''0x11''),
       OpenTrie = (\<lambda>h. if take 1 h = [0xa0] then Val demo_trie
                         else if take 1 h = [0x77] then Val demo_storage
                         else Fail ''missing trie node''),
       SubtrieIterators = (\<lambda>t n. map (\<lambda>i. NodeIterator t) [0..<unat n]),
       pubBeginTx = (\<lambda>p. (Val p, Suc p)),
       pubPrepareTxForBatch = (\<lambda>tx m p. (Val tx, p)),
       pubPublishHeader = (\<lambda>h p. (Val (), Suc p)),
       pubPublishStateNode = (\<lambda>nd h tx p. (Val (), Suc p)),
       pubPublishStorageNode = (\<lambda>nd h sp tx p. (Val (), Suc p)),
       pubPublishCode = (\<lambda>ch cb tx p. (Val (), Suc p)),
       CommitOrRollback = (\<lambda>tx e p. (Val (), p)),
       trackerRestore = (\<lambda>t f. case f of
                            None \<Rightarrow> (Val None, f)
                          | Some recs \<Rightarrow> (Val (Some (map (\<lambda>r. NodeIterator t) recs)), f)),
       trackerTracked = (\<lambda>it. it),
       trackerHaltAndDump = (\<lambda>f. (Val (), None)) \<rparr>"

definition demo_world :: "recoveryFile \<Rightarrow> (nat, nat) world" where
  "demo_world f = \<lparr>pub = 0, recovery = f, calls = []\<rparr>"

definition demo_service :: "bool \<Rightarrow> service" where
  "demo_service b = \<lparr>watchingAddresses = b, maxBatchSize = 100\<rparr>"



section \<open>Properties\<close>

lemma HasPrefix_prefix: "HasPrefix s pre = prefix pre s"
  by (auto simp: HasPrefix_def prefix_def) (metis append_take_drop_id)

lemma validPath_iff: "validPath p ws = (\<exists>w \<in> set ws. prefix p w)"
  by (induction ws) (auto simp: HasPrefix_prefix)

subsection \<open>The trace of calls\<close>

lemma callPrepareTxForBatch_calls:
  "callPrepareTxForBatch env tx m w = (r, w') \<Longrightarrow> calls w' = calls w @ [CallPrepareTxForBatch tx m]"
  by (auto simp: callPrepareTxForBatch_def split: prod.splits)

lemma callPublishStateNode_calls:
  "callPublishStateNode env nd h tx w = (r, w') \<Longrightarrow> calls w' = calls w @ [CallPublishStateNode nd h tx]"
  by (auto simp: callPublishStateNode_def split: prod.splits)

lemma callPublishStorageNode_calls:
  "callPublishStorageNode env nd h sp tx w = (r, w')
     \<Longrightarrow> calls w' = calls w @ [CallPublishStorageNode nd h sp tx]"
  by (auto simp: callPublishStorageNode_def split: prod.splits)

lemma callPublishCode_calls:
  "callPublishCode env ch cb tx w = (r, w') \<Longrightarrow> calls w' = calls w @ [CallPublishCode ch cb tx]"
  by (auto simp: callPublishCode_def split: prod.splits)

lemma callBeginTx_calls:
  "callBeginTx env w = (r, w') \<Longrightarrow> calls w' = calls w @ [CallBeginTx]"
  by (auto simp: callBeginTx_def split: prod.splits)

lemma callCommitOrRollback_calls:
  "callCommitOrRollback env tx e w = (r, w') \<Longrightarrow> calls w' = calls w @ [CallCommitOrRollback tx e]"
  by (auto simp: callCommitOrRollback_def split: prod.splits)

lemma resolveNode_Some:
  assumes "resolveNode env p it = Val (Some res)"
  shows "\<exists>n elems ty. trieNode env (itHash it) = Val n \<and> rlpDecodeBytes env n = Val elems \<and>
           CheckKeyType elems = Val (ty, None) \<and>
           res = \<lparr>node = \<lparr>NodeType = ty, Path = p, Key = nullHash, Value = n\<rparr>, elements = elems\<rparr> \<and>
           \<not> itLeaf it \<and> \<not> IsNullHash (itHash it)"
  using assms
  by (auto simp: resolveNode_def split: if_splits res.splits prod.splits option.splits)

lemma resolveNode_None:
  "resolveNode env p it = Val None \<longleftrightarrow> itLeaf it \<or> IsNullHash (itHash it)"
  by (auto simp: resolveNode_def split: if_splits res.splits prod.splits option.splits)

text \<open>The key of a leaf record, as C4 states it.\<close>

definition keyOK :: "('p, 'tx) env \<Rightarrow> node \<Rightarrow> bool" where
  "keyOK env nd =
     (case rlpDecodeBytes env (Value nd) of
        Val (RBytes compact # rest) \<Rightarrow>
          HexToCompact env (Path nd @ CompactToHex env compact) \<noteq> [] \<and>
          Key nd = BytesToHash env (tl (HexToCompact env (Path nd @ CompactToHex env compact)))
      | _ \<Rightarrow> False)"

lemma leafKey_Val:
  assumes "leafKey env p elems = Val k"
  shows "\<exists>compact rest. elems = RBytes compact # rest \<and>
           HexToCompact env (p @ CompactToHex env compact) \<noteq> [] \<and>
           k = BytesToHash env (tl (HexToCompact env (p @ CompactToHex env compact)))"
  using assms
  by (auto simp: leafKey_def Let_def split: list.splits rlp.splits if_splits)


fun storageCall :: "('p, 'tx) env \<Rightarrow> 'tx call \<Rightarrow> bool" where
  "storageCall env (CallPrepareTxForBatch tx m) = True"
| "storageCall env (CallPublishStorageNode nd h sp tx) = (NodeType nd \<noteq> Leaf \<or> keyOK env nd)"
| "storageCall env c = False"

lemma storageNodeKey_Val:
  assumes "storageNodeKey env nd elems = Val nd'"
  shows "Path nd' = Path nd \<and> Value nd' = Value nd \<and> NodeType nd' = NodeType nd \<and>
         (NodeType nd = Leaf \<longrightarrow> (\<exists>k. leafKey env (Path nd) elems = Val k \<and> Key nd' = k))"
  using assms
  by (auto simp: storageNodeKey_def split: nodeType.splits res.splits)

lemma storageLoop_step:
  assumes res: "resolveNode env (itPath it') it' = Val (Some res)"
    and tn: "trieNode env (itHash it') = Val nodeData"
    and k: "storageNodeKey env ((node res)\<lparr>Value := nodeData\<rparr>) (elements res) = Val nd"
  shows "NodeType nd \<noteq> Leaf \<or> keyOK env nd"
proof (cases "NodeType nd = Leaf")
  case True
  from resolveNode_Some [OF res] tn obtain elems ty where
    dec: "rlpDecodeBytes env nodeData = Val elems" and
    r: "res = \<lparr>node = \<lparr>NodeType = ty, Path = itPath it', Key = nullHash, Value = nodeData\<rparr>,
              elements = elems\<rparr>"
    by auto
  from storageNodeKey_Val [OF k] True r obtain key where
    lk: "leafKey env (itPath it') elems = Val key" and
    nd: "Key nd = key" "Path nd = itPath it'" "Value nd = nodeData"
    by auto
  from leafKey_Val [OF lk] nd dec show ?thesis
    by (auto simp: keyOK_def)
next
  case False
  then show ?thesis by simp
qed

lemma storageLoop_calls:
  "storageLoop env s h sp it tx w = (r, w')
     \<Longrightarrow> \<exists>cs. calls w' = calls w @ cs \<and> (\<forall>c \<in> set cs. storageCall env c)"
proof (induction env s h sp it tx w rule: storageLoop.induct)
  case (1 env s headerID statePath it tx w)
  obtain b it' where nx: "itNext True it = (b, it')"
    by (cases "itNext True it")
  show ?case
  proof (cases b)
    case False
    with "1.prems" nx have "w' = w"
      by (subst (asm) storageLoop.simps) (auto split: res.splits)
    then show ?thesis by simp
  next
    case True
    with nx have nx': "itNext True it = (True, it')"
      by simp
    show ?thesis
    proof (cases "resolveNode env (itPath it') it'")
      case (Fail e)
      with "1.prems" nx' have "w' = w"
        by (subst (asm) storageLoop.simps) simp
      then show ?thesis by simp
    next
      case (Panic e)
      with "1.prems" nx' have "w' = w"
        by (subst (asm) storageLoop.simps) simp
      then show ?thesis by simp
    next
      case (Val ro)
      show ?thesis
      proof (cases ro)
        case None
        with "1.prems" nx' Val have "storageLoop env s headerID statePath it' tx w = (r, w')"
          by (subst (asm) storageLoop.simps) simp
        with "1.IH"(1) [OF nx' [symmetric] refl] Val None show ?thesis
          by simp
      next
        case (Some res)
        note rs = Val [unfolded Some]
        obtain r1 w1 where pr: "callPrepareTxForBatch env tx (maxBatchSize s) w = (r1, w1)"
          by (cases "callPrepareTxForBatch env tx (maxBatchSize s) w")
        note c1 = callPrepareTxForBatch_calls [OF pr]
        have stop: "w' = w1 \<Longrightarrow> ?thesis"
          using c1 by simp
        show ?thesis
        proof (cases r1)
          case (Fail e)
          with "1.prems" nx' rs pr have "w' = w1"
            by (subst (asm) storageLoop.simps) simp
          then show ?thesis by (rule stop)
        next
          case (Panic e)
          with "1.prems" nx' rs pr have "w' = w1"
            by (subst (asm) storageLoop.simps) simp
          then show ?thesis by (rule stop)
        next
          case (Val tx1)
          note pr' = pr [unfolded Val]
          show ?thesis
          proof (cases "trieNode env (itHash it')")
            case (Fail e)
            with "1.prems" nx' rs pr' have "w' = w1"
              by (subst (asm) storageLoop.simps) simp
            then show ?thesis by (rule stop)
          next
            case (Panic e)
            with "1.prems" nx' rs pr' have "w' = w1"
              by (subst (asm) storageLoop.simps) simp
            then show ?thesis by (rule stop)
          next
            case (Val nodeData)
            note tn = this
            show ?thesis
            proof (cases "storageNodeKey env ((node res)\<lparr>Value := nodeData\<rparr>) (elements res)")
              case (Fail e)
              with "1.prems" nx' rs pr' tn have "w' = w1"
                by (subst (asm) storageLoop.simps) simp
              then show ?thesis by (rule stop)
            next
              case (Panic e)
              with "1.prems" nx' rs pr' tn have "w' = w1"
                by (subst (asm) storageLoop.simps) simp
              then show ?thesis by (rule stop)
            next
              case (Val nd)
              note k = this
              obtain r2 w2 where pb: "callPublishStorageNode env nd headerID statePath tx1 w1 = (r2, w2)"
                by (cases "callPublishStorageNode env nd headerID statePath tx1 w1")
              note c2 = callPublishStorageNode_calls [OF pb]
              have ok: "storageCall env (CallPublishStorageNode nd headerID statePath tx1)"
                using storageLoop_step [OF rs tn k] by simp
              have stop2: "w' = w2 \<Longrightarrow> ?thesis"
                using c1 c2 ok by simp
              show ?thesis
              proof (cases r2)
                case (Fail e)
                with "1.prems" nx' rs pr' tn k pb have "w' = w2"
                  by (subst (asm) storageLoop.simps) simp
                then show ?thesis by (rule stop2)
              next
                case (Panic e)
                with "1.prems" nx' rs pr' tn k pb have "w' = w2"
                  by (subst (asm) storageLoop.simps) simp
                then show ?thesis by (rule stop2)
              next
                case (Val u)
                with "1.prems" nx' rs pr' tn k pb
                have rec: "storageLoop env s headerID statePath it' tx1 w2 = (r, w')"
                  by (subst (asm) storageLoop.simps) simp
                from "1.IH"(2) [OF nx' [symmetric] refl rs refl pr' [symmetric] refl tn k
                    pb [unfolded Val, symmetric] refl rec]
                obtain cs where "calls w' = calls w2 @ cs" "\<forall>c \<in> set cs. storageCall env c"
                  by blast
                with c1 c2 ok show ?thesis
                  by simp
              qed
            qed
          qed
        qed
      qed
    qed
  qed
qed


fun statePathOf :: "'tx call \<Rightarrow> bytes list" where
  "statePathOf (CallPublishStateNode nd h tx) = [Path nd]"
| "statePathOf c = []"

definition statePaths :: "'tx call list \<Rightarrow> bytes list" where
  "statePaths cs = concat (map statePathOf cs)"

fun callOK :: "('p, 'tx) env \<Rightarrow> 'tx call \<Rightarrow> bool" where
  "callOK env (CallPublishStateNode nd h tx) = (NodeType nd \<noteq> Leaf \<or> keyOK env nd)"
| "callOK env (CallPublishStorageNode nd h sp tx) = (NodeType nd \<noteq> Leaf \<or> keyOK env nd)"
| "callOK env c = True"

fun codeCallOf :: "'tx call \<Rightarrow> (hash \<times> bytes \<times> 'tx) list" where
  "codeCallOf (CallPublishCode ch cb tx) = [(ch, cb, tx)]"
| "codeCallOf c = []"

definition codeCalls :: "'tx call list \<Rightarrow> (hash \<times> bytes \<times> 'tx) list" where
  "codeCalls cs = concat (map codeCallOf cs)"

lemma statePaths_append [simp]: "statePaths (xs @ ys) = statePaths xs @ statePaths ys"
  by (simp add: statePaths_def)

lemma statePaths_Nil [simp]: "statePaths [] = []"
  by (simp add: statePaths_def)

lemma statePaths_Cons [simp]: "statePaths (c # cs) = statePathOf c @ statePaths cs"
  by (simp add: statePaths_def)

lemma codeCalls_append [simp]: "codeCalls (xs @ ys) = codeCalls xs @ codeCalls ys"
  by (simp add: codeCalls_def)

lemma codeCalls_Nil [simp]: "codeCalls [] = []"
  by (simp add: codeCalls_def)

lemma codeCalls_Cons [simp]: "codeCalls (c # cs) = codeCallOf c @ codeCalls cs"
  by (simp add: codeCalls_def)

lemma storageCall_props:
  assumes "storageCall env c"
  shows "callOK env c" and "statePathOf c = []" and "codeCallOf c = []"
  using assms by (cases c; simp)+

lemma storageCalls_props:
  assumes "\<forall>c \<in> set cs. storageCall env c"
  shows "\<forall>c \<in> set cs. callOK env c" and "statePaths cs = []" and "codeCalls cs = []"
  using assms by (induction cs) (auto simp: storageCall_props)

lemma storageSnapshot_calls:
  assumes "storageSnapshot env s sr h sp tx w = (r, w')"
  shows "\<exists>cs. calls w' = calls w @ cs \<and> (\<forall>c \<in> set cs. storageCall env c)"
proof (cases "sr = emptyContractRoot env")
  case True
  with assms have "w' = w"
    by (simp add: storageSnapshot_def)
  then show ?thesis by simp
next
  case False
  show ?thesis
  proof (cases "OpenTrie env sr")
    case (Val sTrie)
    with assms False have "storageLoop env s h sp (NodeIterator sTrie) tx w = (r, w')"
      by (simp add: storageSnapshot_def)
    then show ?thesis
      by (rule storageLoop_calls)
  next
    case (Fail e)
    with assms False have "w' = w"
      by (simp add: storageSnapshot_def)
    then show ?thesis by simp
  next
    case (Panic e)
    with assms False have "w' = w"
      by (simp add: storageSnapshot_def)
    then show ?thesis by simp
  qed
qed

lemma publishAccountCode_calls:
  assumes "publishAccountCode env acct it tx w = (r, w')"
  shows "\<exists>cs. calls w' = calls w @ cs \<and> (\<forall>c \<in> set cs. callOK env c) \<and> statePaths cs = []"
proof (cases "CodeHash acct \<noteq> emptyCodeHash env \<and>
              ReadCode env (BytesToHash env (CodeHash acct)) \<noteq> []")
  case True
  with assms have "callPublishCode env (BytesToHash env (CodeHash acct))
      (ReadCode env (BytesToHash env (CodeHash acct))) tx w = (r, w')"
    by (simp add: publishAccountCode_def Let_def)
  from callPublishCode_calls [OF this] show ?thesis
    by simp
next
  case False
  with assms have "w' = w"
    by (auto simp: publishAccountCode_def Let_def split: if_splits res.splits)
  then show ?thesis by simp
qed


lemma leafSnapshot_calls:
  assumes run: "leafSnapshot env s tx res it h w = (r, w')"
    and dec: "rlpDecodeBytes env (Value (node res)) = Val (elements res)"
  shows "\<exists>cs. calls w' = calls w @ cs \<and> (\<forall>c \<in> set cs. callOK env c) \<and>
           (r = Val () \<longrightarrow> statePaths cs = [Path (node res)])"
proof -
  have stop: "w' = w \<and> r \<noteq> Val () \<Longrightarrow> ?thesis"
    by simp
  show ?thesis
  proof (cases "length (elements res) < 2")
    case True
    with run show ?thesis
      by (intro stop) (auto simp: leafSnapshot_def)
  next
    case len: False
    show ?thesis
    proof (cases "elements res ! 1")
      case (RList l)
      with run len show ?thesis
        by (intro stop) (auto simp: leafSnapshot_def)
    next
      case (RBytes accountBytes)
      note e1 = this
      show ?thesis
      proof (cases "rlpDecodeAccount env accountBytes")
        case (Fail e)
        with run len e1 show ?thesis
          by (intro stop) (auto simp: leafSnapshot_def)
      next
        case (Panic e)
        with run len e1 show ?thesis
          by (intro stop) (auto simp: leafSnapshot_def)
      next
        case (Val acct)
        note ac = this
        show ?thesis
        proof (cases "leafKey env (Path (node res)) (elements res)")
          case (Fail e)
          with run len e1 ac show ?thesis
            by (intro stop) (auto simp: leafSnapshot_def)
        next
          case (Panic e)
          with run len e1 ac show ?thesis
            by (intro stop) (auto simp: leafSnapshot_def)
        next
          case (Val k)
          note lk = this
          obtain r2 w2 where
            p2: "callPublishStateNode env ((node res)\<lparr>Key := k\<rparr>) h tx w = (r2, w2)"
            by (cases "callPublishStateNode env ((node res)\<lparr>Key := k\<rparr>) h tx w")
          note c2 = callPublishStateNode_calls [OF p2]
          have ok2: "callOK env (CallPublishStateNode ((node res)\<lparr>Key := k\<rparr>) h tx)"
            using leafKey_Val [OF lk] dec by (auto simp: keyOK_def)
          have stop2: "w' = w2 \<and> r \<noteq> Val () \<Longrightarrow> ?thesis"
            using c2 ok2 by simp
          show ?thesis
          proof (cases r2)
            case (Fail e)
            with run len e1 ac lk p2 show ?thesis
              by (intro stop2) (auto simp: leafSnapshot_def)
          next
            case (Panic e)
            with run len e1 ac lk p2 show ?thesis
              by (intro stop2) (auto simp: leafSnapshot_def)
          next
            case (Val u)
            note p2' = p2 [unfolded Val]
            obtain r3 w3 where p3: "publishAccountCode env acct it tx w2 = (r3, w3)"
              by (cases "publishAccountCode env acct it tx w2")
            from publishAccountCode_calls [OF p3] obtain cs3 where
              c3: "calls w3 = calls w2 @ cs3" "\<forall>c \<in> set cs3. callOK env c" "statePaths cs3 = []"
              by blast
            have stop3: "w' = w3 \<and> r \<noteq> Val () \<Longrightarrow> ?thesis"
              using c2 ok2 c3 by simp
            show ?thesis
            proof (cases r3)
              case (Fail e)
              with run len e1 ac lk p2' p3 show ?thesis
                by (intro stop3) (auto simp: leafSnapshot_def)
            next
              case (Panic e)
              with run len e1 ac lk p2' p3 show ?thesis
                by (intro stop3) (auto simp: leafSnapshot_def)
            next
              case (Val u')
              note p3' = p3 [unfolded Val]
              obtain r4 w4 where
                p4: "storageSnapshot env s (Root acct) h (Path (node res)) tx w3 = (r4, w4)"
                by (cases "storageSnapshot env s (Root acct) h (Path (node res)) tx w3")
              from storageSnapshot_calls [OF p4] obtain cs4 where
                c4: "calls w4 = calls w3 @ cs4" "\<forall>c \<in> set cs4. storageCall env c"
                by blast
              note c4' = storageCalls_props [OF c4(2)]
              from run len e1 ac lk p2' p3' p4 have "w' = w4"
                by (simp add: leafSnapshot_def split: res.splits)
              with c2 ok2 c3 c4(1) c4' show ?thesis
                by auto
            qed
          qed
        qed
      qed
    qed
  qed
qed

lemma createNodeSnapshot_calls:
  assumes run: "createNodeSnapshot env s tx path it h sp w = (r, w')"
  shows "\<exists>cs. calls w' = calls w @ cs \<and> (\<forall>c \<in> set cs. callOK env c) \<and>
           (r = Val () \<longrightarrow>
              statePaths cs = (if itLeaf it \<or> IsNullHash (itHash it) then [] else [path]))"
proof (cases "resolveNode env path it")
  case (Fail e)
  with run have "w' = w \<and> r \<noteq> Val ()"
    by (auto simp: createNodeSnapshot_def)
  then show ?thesis by simp
next
  case (Panic e)
  with run have "w' = w \<and> r \<noteq> Val ()"
    by (auto simp: createNodeSnapshot_def)
  then show ?thesis by simp
next
  case (Val ro)
  show ?thesis
  proof (cases ro)
    case None
    with run Val have "w' = w"
      by (simp add: createNodeSnapshot_def)
    moreover from Val None have "itLeaf it \<or> IsNullHash (itHash it)"
      by (simp add: resolveNode_None)
    ultimately show ?thesis by simp
  next
    case (Some res)
    note rs = Val [unfolded Some]
    from resolveNode_Some [OF rs] obtain n elems ty where
      tn: "trieNode env (itHash it) = Val n" and
      de: "rlpDecodeBytes env n = Val elems" and
      ck: "CheckKeyType elems = Val (ty, None)" and
      r: "res = \<lparr>node = \<lparr>NodeType = ty, Path = path, Key = nullHash, Value = n\<rparr>, elements = elems\<rparr>" and
      nl: "\<not> itLeaf it" "\<not> IsNullHash (itHash it)"
      by blast
    have dec: "rlpDecodeBytes env (Value (node res)) = Val (elements res)"
      by (simp add: r de)
    have pth: "Path (node res) = path"
      by (simp add: r)
    obtain r1 w1 where pr: "callPrepareTxForBatch env tx (maxBatchSize s) w = (r1, w1)"
      by (cases "callPrepareTxForBatch env tx (maxBatchSize s) w")
    note c1 = callPrepareTxForBatch_calls [OF pr]
    have stop: "w' = w1 \<and> r \<noteq> Val () \<Longrightarrow> ?thesis"
      using c1 by simp
    show ?thesis
    proof (cases r1)
      case (Fail e)
      with run rs pr show ?thesis
        by (intro stop) (auto simp: createNodeSnapshot_def)
    next
      case (Panic e)
      with run rs pr show ?thesis
        by (intro stop) (auto simp: createNodeSnapshot_def)
    next
      case (Val tx1)
      note pr' = pr [unfolded Val]
      have branch: ?thesis
        if b: "callPublishStateNode env ((node res)\<lparr>Key := BytesToHash env []\<rparr>) h tx1 w1 = (r2, w2)"
          and t: "NodeType (node res) \<noteq> Leaf"
          and fin: "case r2 of Val u \<Rightarrow> r = itError it \<and> w' = w2 | _ \<Rightarrow> r \<noteq> Val () \<and> w' = w2"
        for r2 w2
      proof -
        note c2 = callPublishStateNode_calls [OF b]
        from fin have "w' = w2"
          by (cases r2) auto
        with c1 c2 t nl pth show ?thesis
          by simp
      qed
      show ?thesis
      proof (cases "NodeType (node res)")
        case Leaf
        with run rs pr' have "leafSnapshot env s tx1 res it h w1 = (r, w')"
          by (simp add: createNodeSnapshot_def)
        from leafSnapshot_calls [OF this dec] c1 nl pth show ?thesis
          by auto
      next
        case Extension
        obtain r2 w2 where
          b: "callPublishStateNode env ((node res)\<lparr>Key := BytesToHash env []\<rparr>) h tx1 w1 = (r2, w2)"
          by (cases "callPublishStateNode env ((node res)\<lparr>Key := BytesToHash env []\<rparr>) h tx1 w1")
        show ?thesis
        proof (rule branch [OF b])
          show "NodeType (node res) \<noteq> Leaf" using Extension by simp
          show "case r2 of Val u \<Rightarrow> r = itError it \<and> w' = w2 | _ \<Rightarrow> r \<noteq> Val () \<and> w' = w2"
            using run rs pr' Extension b
            by (auto simp: createNodeSnapshot_def split: res.splits)
        qed
      next
        case Branch
        obtain r2 w2 where
          b: "callPublishStateNode env ((node res)\<lparr>Key := BytesToHash env []\<rparr>) h tx1 w1 = (r2, w2)"
          by (cases "callPublishStateNode env ((node res)\<lparr>Key := BytesToHash env []\<rparr>) h tx1 w1")
        show ?thesis
        proof (rule branch [OF b])
          show "NodeType (node res) \<noteq> Leaf" using Branch by simp
          show "case r2 of Val u \<Rightarrow> r = itError it \<and> w' = w2 | _ \<Rightarrow> r \<noteq> Val () \<and> w' = w2"
            using run rs pr' Branch b
            by (auto simp: createNodeSnapshot_def split: res.splits)
        qed
      next
        case Removed
        with run rs pr' show ?thesis
          by (intro stop) (auto simp: createNodeSnapshot_def)
      next
        case Unknown
        with run rs pr' show ?thesis
          by (intro stop) (auto simp: createNodeSnapshot_def)
      qed
    qed
  qed
qed


subsection \<open>The nodes the walker reaches\<close>

text \<open>
  The children the walker finds below a node: \<open>createSubTrieSnapshot\<close> opens the
  trie at the hash of the node, which is the empty trie for the zero hash.
\<close>

definition openKids :: "trie \<Rightarrow> (bytes \<times> trie) list" where
  "openKids n = (if isMissing n \<or> IsNullHash (thash n) then [] else tkids n)"

lemma openKids_size: "k \<in> set (openKids n) \<Longrightarrow> tsize (snd k) < tsize n"
proof (cases n)
  case (Node h l ks)
  assume "k \<in> set (openKids n)"
  with Node have "k \<in> set ks"
    by (auto simp: openKids_def split: if_splits)
  then have "tsize (snd k) \<le> sum_list (map (\<lambda>k. tsize (snd k)) ks)"
    by (induction ks) auto
  with Node show ?thesis by simp
next
  case (Missing h)
  assume "k \<in> set (openKids n)"
  with Missing show ?thesis
    by (simp add: openKids_def)
qed

text \<open>
  All nodes strictly below a node that the walker can reach, in pre-order, each
  with its path from the root; \<open>P\<close> is the path of the node itself.
\<close>

function subtrieNodes :: "bytes \<Rightarrow> trie \<Rightarrow> (bytes \<times> trie) list"
  and entriesNodes :: "bytes \<Rightarrow> (bytes \<times> trie) list \<Rightarrow> (bytes \<times> trie) list" where
  "subtrieNodes P n = entriesNodes P (openKids n)"
| "entriesNodes P [] = []"
| "entriesNodes P (k # ks) =
     ((P @ fst k, snd k) # subtrieNodes (P @ fst k) (snd k)) @ entriesNodes P ks"
  by pat_completeness auto
termination
proof (relation "measure (\<lambda>a. case a of
          Inl (P, n) \<Rightarrow> 2 * tsize n
        | Inr (P, ks) \<Rightarrow> 2 * ssize ks + 1)", goal_cases)
  case 1
  show ?case by simp
next
  case (2 P n)
  have "ssize (openKids n) < tsize n"
    by (cases n) (simp_all add: openKids_def ssize_def)
  then show ?case by simp
next
  case (3 P k ks)
  show ?case by simp
next
  case (4 P k ks)
  show ?case by simp
qed

declare subtrieNodes.simps [simp del]

text \<open>
  The nodes of the trie the walker reaches from a fresh iterator: the root,
  the children of the root, and below each what \<open>subtrieNodes\<close> gives.
\<close>

definition walkNodes :: "trie \<Rightarrow> (bytes \<times> trie) list" where
  "walkNodes t = ([], t) # entriesNodes [] (tkids t)"

text \<open>
  A node that \<open>resolveNode\<close> resolves: not a value pseudo-node (\<open>it.Leaf()\<close>) and
  not at the zero hash.
\<close>

definition resolvable :: "trie \<Rightarrow> bool" where
  "resolvable n = (\<not> isMissing n \<and> \<not> tleaf n \<and> \<not> IsNullHash (thash n))"

definition kept :: "service \<Rightarrow> bytes list \<Rightarrow> (bytes \<times> trie) list \<Rightarrow> bytes list" where
  "kept s ws ns = map fst (filter (\<lambda>k. resolvable (snd k) \<and> \<not> skipPath s (fst k) ws) ns)"

lemma kept_append [simp]: "kept s ws (xs @ ys) = kept s ws xs @ kept s ws ys"
  by (simp add: kept_def)

lemma kept_Nil [simp]: "kept s ws [] = []"
  by (simp add: kept_def)

lemma entriesNodes_Cons:
  "entriesNodes P (x # es) =
     ((P @ fst x, snd x) # subtrieNodes (P @ fst x) (snd x)) @ entriesNodes P es"
  by simp

lemma subtrieNodes_entries: "subtrieNodes P n = entriesNodes P (openKids n)"
  by (rule subtrieNodes.simps)

lemma nodes_prefix:
  "k \<in> set (subtrieNodes P n) \<Longrightarrow> prefix P (fst k)"
  "k \<in> set (entriesNodes P es) \<Longrightarrow> prefix P (fst k)"
proof (induction P n and P es arbitrary: k and k rule: subtrieNodes_entriesNodes.induct)
  case (1 P n)
  then show ?case
    by (simp add: subtrieNodes.simps)
next
  case (2 P)
  then show ?case by simp
next
  case (3 P c ks)
  from "3.prems" consider "k = (P @ fst c, snd c)" | "k \<in> set (subtrieNodes (P @ fst c) (snd c))"
    | "k \<in> set (entriesNodes P ks)"
    by auto
  then show ?case
  proof cases
    case 1
    then show ?thesis by simp
  next
    case 2
    from "3.IH"(1) [OF this] show ?thesis
      by (meson append_prefixD)
  next
    case 3
    from "3.IH"(2) [OF this] show ?thesis .
  qed
qed

lemmas subtrieNodes_prefix = nodes_prefix(1)

lemma skipPath_prefix:
  assumes "skipPath s P ws" and "prefix P Q"
  shows "skipPath s Q ws"
  using assms by (auto simp: skipPath_def validPath_iff dest: prefix_order.trans)

lemma kept_skipped:
  assumes "skipPath s P ws"
  shows "kept s ws ((P, c) # subtrieNodes P c) = []"
proof -
  have "\<forall>k \<in> set ((P, c) # subtrieNodes P c). skipPath s (fst k) ws"
    using assms by (auto dest: subtrieNodes_prefix skipPath_prefix)
  then show ?thesis
    unfolding kept_def by (simp add: filter_empty_conv)
qed


lemma itNext_False:
  assumes "itNext d it = (False, it')"
  shows "(pendingEntries d it = [] \<and> itError it' = Val ()) \<or>
         (\<exists>e. itError it' = Fail e)"
  using assms
  by (auto simp: itNext_def itError_def split: list.splits if_splits)

lemma itNext_True_fields:
  assumes "itNext d it = (True, it')"
  obtains x rest where "pendingEntries d it = x # rest" "\<not> isMissing (snd x)"
    "pendingEntries False it' = rest" "itPath it' = fst x" "itNode it' = snd x"
    "itLeaf it' = tleaf (snd x)" "itHash it' = thash (snd x)"
proof -
  from itNext_True [OF assms] obtain x rest where
    p: "pendingEntries d it = x # rest" "\<not> isMissing (snd x)" and
    it': "it' = \<lparr>itCur = Some x, itStack = rest, itErr = None\<rparr>" by blast
  show ?thesis
  proof (rule that [OF p])
    show "pendingEntries False it' = rest"
      by (simp add: it' pendingEntries_def)
    show "itPath it' = fst x" "itNode it' = snd x" "itLeaf it' = tleaf (snd x)"
      "itHash it' = thash (snd x)"
      by (cases x; simp add: it' itPath_def itNode_def itLeaf_def itHash_def)+
  qed
qed

lemma OpenTrieAt_entries:
  assumes "OpenTrieAt n = Val t"
  shows "pendingEntries True (snd (itNext True (NodeIterator t))) = openKids n"
proof -
  from assms have t: "(t = emptyTrie \<and> IsNullHash (thash n) \<and> \<not> isMissing n) \<or>
      (t = n \<and> \<not> isMissing n \<and> \<not> IsNullHash (thash n))"
    by (auto simp: OpenTrieAt_def split: if_splits)
  have nm: "\<not> isMissing t"
    using OpenTrieAt_Val(1) [OF assms] .
  have "pendingEntries True (snd (itNext True (NodeIterator t))) = tkids t"
    by (simp add: itNext_NodeIterator [OF nm] pendingEntries_def comp_def case_prod_beta)
  with t show ?thesis
    by (auto simp: openKids_def emptyTrie_def)
qed

lemma walk_calls:
  "createSubTrieSnapshot env s tx P n h ws w = (r, w')
     \<Longrightarrow> \<exists>cs. calls w' = calls w @ cs \<and> (\<forall>c \<in> set cs. callOK env c) \<and>
              (r = Val () \<longrightarrow> statePaths cs = kept s ws (subtrieNodes P n))"
  "subTrieLoop env s tx P h ws d it w = (r, w')
     \<Longrightarrow> \<exists>cs. calls w' = calls w @ cs \<and> (\<forall>c \<in> set cs. callOK env c) \<and>
              (r = Val () \<longrightarrow> statePaths cs = kept s ws (entriesNodes P (pendingEntries d it)))"
proof (induction env s tx P n h ws w and env s tx P h ws d it w arbitrary: r w' and r w'
    rule: createSubTrieSnapshot_subTrieLoop.induct)
  case (1 env s tx prefixPath n headerID seekingPaths w)
  show ?case
  proof (cases "OpenTrieAt n")
    case (Val subTrie)
    with "1.prems" have
      "subTrieLoop env s tx prefixPath headerID seekingPaths True
         (snd (itNext True (NodeIterator subTrie))) w = (r, w')"
      by simp
    from "1.IH" [OF Val this] show ?thesis
      by (simp add: OpenTrieAt_entries [OF Val] subtrieNodes_entries)
  next
    case (Fail e)
    with "1.prems" have "w' = w \<and> r \<noteq> Val ()" by auto
    then show ?thesis by simp
  next
    case (Panic e)
    with "1.prems" have "w' = w \<and> r \<noteq> Val ()" by auto
    then show ?thesis by simp
  qed
next
  case (2 env s tx prefixPath headerID seekingPaths descend subTrieIt w)
  obtain b it' where nx: "itNext descend subTrieIt = (b, it')"
    by (cases "itNext descend subTrieIt")
  show ?case
  proof (cases b)
    case False
    with nx have nx': "itNext descend subTrieIt = (False, it')" by simp
    with "2.prems" have "w' = w" "r = itError it'"
      by auto
    with itNext_False [OF nx'] show ?thesis
      by auto
  next
    case True
    with nx have nx': "itNext descend subTrieIt = (True, it')" by simp
    from nx' obtain x rest where
      p: "pendingEntries descend subTrieIt = x # rest" and
      nm: "\<not> isMissing (snd x)" and
      rest: "pendingEntries False it' = rest" and
      fields: "itPath it' = fst x" "itNode it' = snd x" "itLeaf it' = tleaf (snd x)"
        "itHash it' = thash (snd x)"
      by (rule itNext_True_fields)
    let ?path = "prefixPath @ itPath it'"
    have split: "entriesNodes prefixPath (pendingEntries descend subTrieIt) =
        ((?path, snd x) # subtrieNodes ?path (snd x)) @ entriesNodes prefixPath rest"
      by (simp add: p entriesNodes_Cons fields)
    show ?thesis
    proof (cases "skipPath s ?path seekingPaths")
      case skip: True
      with "2.prems" nx' have
        "subTrieLoop env s tx prefixPath headerID seekingPaths False it' w = (r, w')"
        by simp
      moreover have "kept s seekingPaths (entriesNodes prefixPath (pendingEntries descend subTrieIt)) =
          kept s seekingPaths (entriesNodes prefixPath rest)"
        unfolding split kept_append kept_skipped [OF skip] by simp
      ultimately show ?thesis
        using "2.IH"(1) [OF nx' [symmetric] refl skip] by (simp add: rest)
    next
      case noskip: False
      obtain r1 w1 where
        cn: "createNodeSnapshot env s tx ?path it' headerID seekingPaths w = (r1, w1)"
        by (cases "createNodeSnapshot env s tx ?path it' headerID seekingPaths w")
      from createNodeSnapshot_calls [OF cn] obtain cs1 where
        c1: "calls w1 = calls w @ cs1" "\<forall>c \<in> set cs1. callOK env c"
          "r1 = Val () \<longrightarrow> statePaths cs1 = (if resolvable (snd x) then [?path] else [])"
        by (auto simp: fields resolvable_def nm)
      have k1: "kept s seekingPaths [(?path, snd x)] = (if resolvable (snd x) then [?path] else [])"
        using noskip by (simp add: kept_def)
      show ?thesis
      proof (cases "r1 = Val ()")
        case False
        with "2.prems" nx' noskip cn have "w' = w1 \<and> r \<noteq> Val ()"
          by (cases r1) auto
        with c1 show ?thesis by simp
      next
        case v1: True
        obtain r2 w2 where
          cs: "createSubTrieSnapshot env s tx ?path (itNode it') headerID seekingPaths w1 = (r2, w2)"
          by (cases "createSubTrieSnapshot env s tx ?path (itNode it') headerID seekingPaths w1")
        from "2.IH"(2) [OF nx' [symmetric] refl noskip cn [unfolded v1, symmetric] refl cs]
        obtain cs2 where
          c2: "calls w2 = calls w1 @ cs2" "\<forall>c \<in> set cs2. callOK env c"
            "r2 = Val () \<longrightarrow> statePaths cs2 = kept s seekingPaths (subtrieNodes ?path (snd x))"
          by (auto simp: fields)
        show ?thesis
        proof (cases "r2 = Val ()")
          case False
          with "2.prems" nx' noskip cn v1 cs have "w' = w2 \<and> r \<noteq> Val ()"
            by (cases r2) auto
          with c1 c2 show ?thesis by auto
        next
          case v2: True
          with "2.prems" nx' noskip cn v1 cs have
            lp: "subTrieLoop env s tx prefixPath headerID seekingPaths False it' w2 = (r, w')"
            by simp
          from "2.IH"(3) [OF nx' [symmetric] refl noskip cn [unfolded v1, symmetric] refl
              cs [unfolded v2, symmetric] refl lp]
          obtain cs3 where
            c3: "calls w' = calls w2 @ cs3" "\<forall>c \<in> set cs3. callOK env c"
              "r = Val () \<longrightarrow> statePaths cs3 = kept s seekingPaths (entriesNodes prefixPath rest)"
            by (auto simp: rest)
          have "kept s seekingPaths (entriesNodes prefixPath (pendingEntries descend subTrieIt)) =
              kept s seekingPaths [(?path, snd x)] @
              kept s seekingPaths (subtrieNodes ?path (snd x)) @
              kept s seekingPaths (entriesNodes prefixPath rest)"
            unfolding split by (simp add: kept_def)
          with c1 c2 c3 v1 v2 k1 show ?thesis
            by auto
        qed
      qed
    qed
  qed
qed


lemma createSnapshotLoop_calls:
  "createSnapshotLoop env s tx h ws d it w = (r, w')
     \<Longrightarrow> \<exists>cs. calls w' = calls w @ cs \<and> (\<forall>c \<in> set cs. callOK env c) \<and>
              (r = Val () \<longrightarrow> statePaths cs = kept s ws (entriesNodes [] (pendingEntries d it)))"
proof (induction env s tx h ws d it w arbitrary: r w' rule: createSnapshotLoop.induct)
  case (1 env s tx headerID seekingPaths descend it w)
  obtain b it' where nx: "itNext descend it = (b, it')"
    by (cases "itNext descend it")
  show ?case
  proof (cases b)
    case False
    with nx have nx': "itNext descend it = (False, it')" by simp
    with "1.prems" have "w' = w" "r = itError it'"
      by (subst (asm) createSnapshotLoop.simps; simp)+
    with itNext_False [OF nx'] show ?thesis
      by auto
  next
    case True
    with nx have nx': "itNext descend it = (True, it')" by simp
    from nx' obtain x rest where
      p: "pendingEntries descend it = x # rest" and
      nm: "\<not> isMissing (snd x)" and
      rest: "pendingEntries False it' = rest" and
      fields: "itPath it' = fst x" "itNode it' = snd x" "itLeaf it' = tleaf (snd x)"
        "itHash it' = thash (snd x)"
      by (rule itNext_True_fields)
    let ?path = "itPath it'"
    have split: "entriesNodes [] (pendingEntries descend it) =
        ((?path, snd x) # subtrieNodes ?path (snd x)) @ entriesNodes [] rest"
      by (simp add: p entriesNodes_Cons fields)
    note unfold = "1.prems" [unfolded createSnapshotLoop.simps [of env s tx headerID seekingPaths descend it w]]
    show ?thesis
    proof (cases "skipPath s ?path seekingPaths")
      case skip: True
      with unfold nx' have
        "createSnapshotLoop env s tx headerID seekingPaths False it' w = (r, w')"
        by simp
      moreover have "kept s seekingPaths (entriesNodes [] (pendingEntries descend it)) =
          kept s seekingPaths (entriesNodes [] rest)"
        unfolding split kept_append kept_skipped [OF skip] by simp
      ultimately show ?thesis
        using "1.IH"(1) [OF nx' [symmetric] refl skip] by (simp add: rest)
    next
      case noskip: False
      obtain r1 w1 where
        cn: "createNodeSnapshot env s tx ?path it' headerID seekingPaths w = (r1, w1)"
        by (cases "createNodeSnapshot env s tx ?path it' headerID seekingPaths w")
      from createNodeSnapshot_calls [OF cn] obtain cs1 where
        c1: "calls w1 = calls w @ cs1" "\<forall>c \<in> set cs1. callOK env c"
          "r1 = Val () \<longrightarrow> statePaths cs1 = (if resolvable (snd x) then [?path] else [])"
        by (auto simp: fields resolvable_def nm)
      have k1: "kept s seekingPaths [(?path, snd x)] = (if resolvable (snd x) then [?path] else [])"
        using noskip by (simp add: kept_def)
      show ?thesis
      proof (cases "r1 = Val ()")
        case False
        with unfold nx' noskip cn have "w' = w1 \<and> r \<noteq> Val ()"
          by (cases r1) auto
        with c1 show ?thesis by simp
      next
        case v1: True
        obtain r2 w2 where
          cs: "createSubTrieSnapshot env s tx ?path (itNode it') headerID seekingPaths w1 = (r2, w2)"
          by (cases "createSubTrieSnapshot env s tx ?path (itNode it') headerID seekingPaths w1")
        from walk_calls(1) [OF cs]
        obtain cs2 where
          c2: "calls w2 = calls w1 @ cs2" "\<forall>c \<in> set cs2. callOK env c"
            "r2 = Val () \<longrightarrow> statePaths cs2 = kept s seekingPaths (subtrieNodes ?path (snd x))"
          by (auto simp: fields)
        show ?thesis
        proof (cases "r2 = Val ()")
          case False
          with unfold nx' noskip cn v1 cs have "w' = w2 \<and> r \<noteq> Val ()"
            by (cases r2) auto
          with c1 c2 show ?thesis by auto
        next
          case v2: True
          with unfold nx' noskip cn v1 cs have
            lp: "createSnapshotLoop env s tx headerID seekingPaths False it' w2 = (r, w')"
            by simp
          from "1.IH"(2) [OF nx' [symmetric] refl noskip cn [unfolded v1, symmetric] refl
              cs [unfolded v2, symmetric] refl lp]
          obtain cs3 where
            c3: "calls w' = calls w2 @ cs3" "\<forall>c \<in> set cs3. callOK env c"
              "r = Val () \<longrightarrow> statePaths cs3 = kept s seekingPaths (entriesNodes [] rest)"
            by (auto simp: rest)
          have "kept s seekingPaths (entriesNodes [] (pendingEntries descend it)) =
              kept s seekingPaths [(?path, snd x)] @
              kept s seekingPaths (subtrieNodes ?path (snd x)) @
              kept s seekingPaths (entriesNodes [] rest)"
            unfolding split by (simp add: kept_def)
          with c1 c2 c3 v1 v2 k1 show ?thesis
            by auto
        qed
      qed
    qed
  qed
qed


text \<open>
  What a run of \<open>createSnapshot\<close> that returns nil emits, from the position of
  the iterator it is given.
\<close>

definition startEmits :: "service \<Rightarrow> bytes list \<Rightarrow> iter \<Rightarrow> bytes list" where
  "startEmits s ws it =
     (if itPathNil it then
        (if itLeaf (snd (itNext True it)) \<or> IsNullHash (itHash (snd (itNext True it))) then []
         else [itPath (snd (itNext True it))]) @
        kept s ws (entriesNodes []
          (pendingEntries (itPath (snd (itNext True it)) = []) (snd (itNext True it))))
      else kept s ws (entriesNodes [] (pendingEntries (itPath it = []) it)))"

lemma createSnapshot_calls:
  assumes run: "createSnapshot env s it h ws w = (r, w')"
  shows "\<exists>cs. calls w' = calls w @ cs \<and> (\<forall>c \<in> set cs. callOK env c) \<and>
           (r = Val () \<longrightarrow> statePaths cs = startEmits s ws it)"
proof -
  obtain r0 w0 where b: "callBeginTx env w = (r0, w0)"
    by (cases "callBeginTx env w")
  note c0 = callBeginTx_calls [OF b]
  show ?thesis
  proof (cases r0)
    case (Fail e)
    with run b have "w' = w0 \<and> r \<noteq> Val ()"
      by (auto simp: createSnapshot_def)
    with c0 show ?thesis by simp
  next
    case (Panic e)
    with run b have "w' = w0 \<and> r \<noteq> Val ()"
      by (auto simp: createSnapshot_def)
    with c0 show ?thesis by simp
  next
    case (Val tx)
    note b' = b [unfolded Val]
    let ?it1 = "snd (itNext True it)"
    define body where "body =
      (if itPathNil it then
         (case createNodeSnapshot env s tx (itPath ?it1) ?it1 h ws w0 of
            (Fail e, w1) \<Rightarrow> (Fail e, w1)
          | (Panic e, w1) \<Rightarrow> (Panic e, w1)
          | (Val u, w1) \<Rightarrow> createSnapshotLoop env s tx h ws (itPath ?it1 = []) ?it1 w1)
       else createSnapshotLoop env s tx h ws (itPath it = []) it w0)"
    obtain rb wb where body: "body = (rb, wb)"
      by (cases body)
    have bc: "\<exists>cs. calls wb = calls w0 @ cs \<and> (\<forall>c \<in> set cs. callOK env c) \<and>
        (rb = Val () \<longrightarrow> statePaths cs = startEmits s ws it)"
    proof (cases "itPathNil it")
      case False
      with body have "createSnapshotLoop env s tx h ws (itPath it = []) it w0 = (rb, wb)"
        by (simp add: body_def)
      from createSnapshotLoop_calls [OF this] False show ?thesis
        by (simp add: startEmits_def)
    next
      case True
      obtain r1 w1 where
        cn: "createNodeSnapshot env s tx (itPath ?it1) ?it1 h ws w0 = (r1, w1)"
        by (cases "createNodeSnapshot env s tx (itPath ?it1) ?it1 h ws w0")
      from createNodeSnapshot_calls [OF cn] obtain cs1 where
        c1: "calls w1 = calls w0 @ cs1" "\<forall>c \<in> set cs1. callOK env c"
          "r1 = Val () \<longrightarrow> statePaths cs1 =
             (if itLeaf ?it1 \<or> IsNullHash (itHash ?it1) then [] else [itPath ?it1])"
        by blast
      show ?thesis
      proof (cases "r1 = Val ()")
        case False
        with body True cn have "wb = w1 \<and> rb \<noteq> Val ()"
          by (cases r1) (auto simp: body_def)
        with c1 show ?thesis by simp
      next
        case v1: True
        with body True cn have
          "createSnapshotLoop env s tx h ws (itPath ?it1 = []) ?it1 w1 = (rb, wb)"
          by (simp add: body_def)
        from createSnapshotLoop_calls [OF this] obtain cs2 where
          "calls wb = calls w1 @ cs2" "\<forall>c \<in> set cs2. callOK env c"
          "rb = Val () \<longrightarrow> statePaths cs2 =
             kept s ws (entriesNodes [] (pendingEntries (itPath ?it1 = []) ?it1))"
          by blast
        with c1 v1 True show ?thesis
          by (auto simp: startEmits_def)
      qed
    qed
    obtain r3 w3 where cr: "callCommitOrRollback env tx None wb = (r3, w3)"
      by (cases "callCommitOrRollback env tx None wb")
    note c3 = callCommitOrRollback_calls [OF cr]
    from run b' have "(case body of
        (r, w2) \<Rightarrow>
          (case callCommitOrRollback env tx None w2 of
             (Panic e, w3) \<Rightarrow> (Panic e, w3)
           | (Fail e, w3) \<Rightarrow> (r, w3)
           | (Val u, w3) \<Rightarrow> (r, w3))) = (r, w')"
      by (simp add: createSnapshot_def body_def)
    with body cr have fin: "w' = w3 \<and> (r = rb \<or> r \<noteq> Val ())"
      by (cases r3) auto
    from bc obtain cs where
      cs: "calls wb = calls w0 @ cs" "\<forall>c \<in> set cs. callOK env c"
        "rb = Val () \<longrightarrow> statePaths cs = startEmits s ws it"
      by blast
    from fin c0 c3 cs show ?thesis
      by auto
  qed
qed

lemma startEmits_NodeIterator:
  assumes "watchingAddresses s = (ws \<noteq> [])"
  shows "startEmits s ws (NodeIterator t) = kept s ws (walkNodes t)"
proof -
  have nil: "itPathNil (NodeIterator t)"
    by (simp add: itPathNil_def NodeIterator_def)
  have root: "\<not> skipPath s [] ws"
    using assms by (cases ws) (auto simp: skipPath_def HasPrefix_def)
  show ?thesis
  proof (cases "isMissing t")
    case True
    then obtain hh where t: "t = Missing hh"
      by (cases t) auto
    let ?it1 = "snd (itNext True (NodeIterator t))"
    have it1: "?it1 = \<lparr>itCur = None, itStack = [([], Missing hh)], itErr = Some ''missing trie node''\<rparr>"
      by (simp add: t itNext_def NodeIterator_def pendingEntries_def)
    have a: "\<not> itLeaf ?it1" "itHash ?it1 = nullHash" "itPath ?it1 = []"
      "pendingEntries True ?it1 = [([], Missing hh)]"
      unfolding it1 by (simp_all add: itLeaf_def itHash_def itPath_def pendingEntries_def)
    have sub: "subtrieNodes [] (Missing hh) = []"
      by (simp add: subtrieNodes.simps openKids_def)
    have "startEmits s ws (NodeIterator t) = kept s ws (entriesNodes [] [([], Missing hh)])"
      unfolding startEmits_def using nil a by (simp add: IsNullHash_def)
    also have "\<dots> = []"
      by (simp add: sub kept_def resolvable_def)
    also have "\<dots> = kept s ws (walkNodes t)"
      by (simp add: walkNodes_def t kept_def resolvable_def)
    finally show ?thesis .
  next
    case False
    note it1 = itNext_NodeIterator [OF False]
    have "kept s ws [([], t)] =
        (if tleaf t \<or> IsNullHash (thash t) then [] else [[]])"
      using root False by (simp add: kept_def resolvable_def)
    moreover have "kept s ws (walkNodes t) = kept s ws [([], t)] @ kept s ws (entriesNodes [] (tkids t))"
      by (simp add: walkNodes_def kept_def)
    ultimately show ?thesis
      by (simp add: startEmits_def nil it1 itLeaf_def itHash_def itPath_def pendingEntries_def
          comp_def case_prod_beta)
  qed
qed


subsection \<open>Runs of the model on the small chain\<close>

lemmas walker_defs =
  createSnapshot_def createNodeSnapshot_def leafSnapshot_def publishAccountCode_def
  itLeafKey_def hexToKeybytes_def
  storageSnapshot_def storageNodeKey_def leafKey_def skipPath_def resolveNode_def
  CheckKeyType_def OpenTrieAt_def emptyTrie_def IsNullHash_def nullHash_def
  itNext_def itPath_def itPathNil_def itHash_def itLeaf_def itError_def itNode_def
  NodeIterator_def pendingEntries_def emptyCodeHash_def emptyContractRoot_def
  callBeginTx_def callPrepareTxForBatch_def callPublishStateNode_def
  callPublishStorageNode_def callPublishCode_def callCommitOrRollback_def
  callPublishHeader_def callRestore_def callHaltAndDump_def HasPrefix_def Let_def

lemmas demo_defs =
  demo_env_def demo_world_def demo_service_def demo_trie_def demo_storage_def demo_value_def
  demo_node_def demo_decode_def demo_account_def demo_BytesToHash_def demo_HexToCompact_def
  demo_CompactToHex_def demo_keybytesToHex_def

lemma replicate_num: "replicate (numeral k) x = x # replicate (pred_numeral k) x"
  by (simp add: numeral_eq_Suc)

lemma demo_run_unwatched:
  "createSnapshot demo_env (demo_service False) (NodeIterator demo_trie) ''0x11'' [] (demo_world None) =
     (Val (),
      \<lparr>pub = 7, recovery = None,
       calls =
         [CallBeginTx,
          CallPrepareTxForBatch 0 100,
          CallPublishStateNode \<lparr>NodeType = Branch, Path = [], Key = replicate 32 0, Value = [0xf0]\<rparr> ''0x11'' 0,
          CallPrepareTxForBatch 0 100,
          CallPublishStateNode \<lparr>NodeType = Extension, Path = [1], Key = replicate 32 0, Value = [0xf1]\<rparr> ''0x11'' 0,
          CallPrepareTxForBatch 0 100,
          CallPublishStateNode \<lparr>NodeType = Leaf, Path = [1, 0xa], Key = replicate 31 0 @ [0xac], Value = [0xf4]\<rparr> ''0x11'' 0,
          CallPrepareTxForBatch 0 100,
          CallPublishStateNode \<lparr>NodeType = Leaf, Path = [2], Key = replicate 31 0 @ [0x2b], Value = [0xf2]\<rparr> ''0x11'' 0,
          CallPublishCode (replicate 32 0xc0) [0x60, 0x00] 0,
          CallPrepareTxForBatch 0 100,
          CallPublishStorageNode \<lparr>NodeType = Leaf, Path = [], Key = replicate 31 0 @ [0x12], Value = [0xf3]\<rparr> ''0x11'' [2] 0,
          CallCommitOrRollback 0 None]\<rparr>)"
  by (simp add: walker_defs demo_defs replicate_num)


lemma demo_run_watched:
  "createSnapshot demo_env (demo_service True) (NodeIterator demo_trie) ''0x11'' [[1, 0xa, 0xc, 16]]
       (demo_world None) =
     (Val (),
      \<lparr>pub = 4, recovery = None,
       calls =
         [CallBeginTx,
          CallPrepareTxForBatch 0 100,
          CallPublishStateNode \<lparr>NodeType = Branch, Path = [], Key = replicate 32 0, Value = [0xf0]\<rparr> ''0x11'' 0,
          CallPrepareTxForBatch 0 100,
          CallPublishStateNode \<lparr>NodeType = Extension, Path = [1], Key = replicate 32 0, Value = [0xf1]\<rparr> ''0x11'' 0,
          CallPrepareTxForBatch 0 100,
          CallPublishStateNode \<lparr>NodeType = Leaf, Path = [1, 0xa], Key = replicate 31 0 @ [0xac], Value = [0xf4]\<rparr> ''0x11'' 0,
          CallCommitOrRollback 0 None]\<rparr>)"
  by (simp add: walker_defs demo_defs replicate_num)

lemma demo_walkNodes:
  "walkNodes demo_trie =
     [([], demo_trie),
      ([1], Node (replicate 32 0xa1) False
              [([0xa], Node (replicate 32 0xa4) False [([0xc, 16], demo_value)])]),
      ([1, 0xa], Node (replicate 32 0xa4) False [([0xc, 16], demo_value)]),
      ([1, 0xa, 0xc, 16], demo_value),
      ([2], Node (replicate 32 0xa2) False [([0xb, 16], demo_value)]),
      ([2, 0xb, 16], demo_value)]"
  by (simp add: walkNodes_def demo_trie_def demo_value_def subtrieNodes.simps openKids_def
      IsNullHash_def nullHash_def replicate_num)

lemma demo_resolvable:
  "resolvable demo_trie"
  "resolvable (Node (replicate 32 0xa1) False ks)"
  "resolvable (Node (replicate 32 0xa4) False ks)"
  "resolvable (Node (replicate 32 0xa2) False ks)"
  "\<not> resolvable demo_value"
  by (simp_all add: resolvable_def demo_trie_def demo_value_def IsNullHash_def nullHash_def
      replicate_num)

section \<open>The claims\<close>

text \<open>
  A run of \<open>createSnapshot\<close> from a fresh iterator over the state trie that
  returns nil, with the flag \<open>watchingAddresses\<close> set as \<open>CreateSnapshot\<close> sets it,
  emits state-node records at exactly these paths, once each and in pre-order:
  the paths \<open>P\<close> of the nodes the walk reaches that \<open>resolveNode\<close> resolves (not a
  value pseudo-node, not at the zero hash) and, when the watched set is not
  empty, such that some watched path has \<open>P\<close> as a prefix.
\<close>

lemma createSnapshot_statePaths:
  assumes "watchingAddresses s = (ws \<noteq> [])"
    and "createSnapshot env s (NodeIterator t) h ws w = (Val (), w')"
  shows "statePaths (calls w') =
           statePaths (calls w) @
           map fst (filter (\<lambda>k. resolvable (snd k) \<and> (ws = [] \<or> (\<exists>x \<in> set ws. prefix (fst k) x)))
                      (walkNodes t))"
proof -
  from createSnapshot_calls [OF assms(2)] obtain cs where
    "calls w' = calls w @ cs" "statePaths cs = startEmits s ws (NodeIterator t)"
    by auto
  moreover have "kept s ws (walkNodes t) =
      map fst (filter (\<lambda>k. resolvable (snd k) \<and> (ws = [] \<or> (\<exists>x \<in> set ws. prefix (fst k) x)))
                 (walkNodes t))"
    using assms(1) by (auto simp: kept_def skipPath_def validPath_iff intro!: arg_cong [where f = "map fst"] filter_cong)
  ultimately show ?thesis
    by (simp add: startEmits_NodeIterator [OF assms(1)])
qed

text \<open>
  The watched paths are built at lines 86-89 as \<open>keybytesToHex(Keccak256(addr))\<close>:
  the nibbles of a hashed key followed by the terminator 16. The path of a
  state node holds nibbles only (the terminator appears in the path of a value
  pseudo-node, which is no state node), so no watched path is a proper prefix
  of the path of a state node.
\<close>

lemma terminated_not_strict_prefix:
  assumes "(16 :: byte) \<in> set x" and "16 \<notin> set P"
  shows "\<not> strict_prefix x P"
  using assms by (auto simp: strict_prefix_def dest: set_mono_prefix)

text \<open>
  C1. A run of \<open>createSnapshot\<close> from a fresh iterator over the state trie that
  returns nil, with the flag \<open>watchingAddresses\<close> set as \<open>CreateSnapshot\<close> sets it.
  Let \<open>P\<close> be the path of a state node the walk reaches (a node that
  \<open>resolveNode\<close> resolves), no watched path being a proper prefix of \<open>P\<close>. With a
  watched set that is not empty, a state-node record is emitted at \<open>P\<close> if and
  only if some watched path has \<open>P\<close> as a prefix or \<open>P\<close> has some watched path as
  a prefix; with an empty watched set a record is emitted at \<open>P\<close>.
\<close>

theorem createSnapshot_watched_emits:
  assumes "watchingAddresses s = (ws \<noteq> [])"
    and "createSnapshot env s (NodeIterator t) h ws w = (Val (), w')"
    and "(P, n) \<in> set (walkNodes t)"
    and "resolvable n"
    and "\<forall>x \<in> set ws. \<not> strict_prefix x P"
  shows "\<exists>E. statePaths (calls w') = statePaths (calls w) @ E \<and>
              (ws \<noteq> [] \<longrightarrow>
                 (P \<in> set E \<longleftrightarrow>
                    (\<exists>x \<in> set ws. prefix P x) \<or> (\<exists>x \<in> set ws. prefix x P))) \<and>
              (ws = [] \<longrightarrow> P \<in> set E)"
proof -
  let ?E = "map fst (filter (\<lambda>k. resolvable (snd k) \<and> (ws = [] \<or> (\<exists>x \<in> set ws. prefix (fst k) x)))
                       (walkNodes t))"
  have mem: "P \<in> set ?E \<longleftrightarrow> ws = [] \<or> (\<exists>x \<in> set ws. prefix P x)"
    using assms(3,4) by force
  have below: "\<exists>y \<in> set ws. prefix P y" if "x \<in> set ws" "prefix x P" for x
  proof -
    from that assms(5) have "x = P"
      by (auto simp: strict_prefix_def)
    with that(1) show ?thesis
      by auto
  qed
  have "statePaths (calls w') = statePaths (calls w) @ ?E"
    by (rule createSnapshot_statePaths [OF assms(1,2)])
  moreover have "ws \<noteq> [] \<longrightarrow>
      (P \<in> set ?E \<longleftrightarrow> (\<exists>x \<in> set ws. prefix P x) \<or> (\<exists>x \<in> set ws. prefix x P))"
    unfolding mem using below by blast
  moreover have "ws = [] \<longrightarrow> P \<in> set ?E"
    unfolding mem by simp
  ultimately show ?thesis
    by blast
qed

theorem createSnapshot_watched_emits_witness:
  "[1, 0xa] \<in> set (statePaths (calls (snd (createSnapshot demo_env (demo_service True)
      (NodeIterator demo_trie) ''0x11'' [[1, 0xa, 0xc, 16]] (demo_world None))))) \<and>
   [2] \<notin> set (statePaths (calls (snd (createSnapshot demo_env (demo_service True)
      (NodeIterator demo_trie) ''0x11'' [[1, 0xa, 0xc, 16]] (demo_world None))))) \<and>
   [2] \<in> set (statePaths (calls (snd (createSnapshot demo_env (demo_service False)
      (NodeIterator demo_trie) ''0x11'' [] (demo_world None)))))"
proof -
  have s1: "watchingAddresses (demo_service True) = ([[1, 0xa, 0xc, 16 :: byte]] \<noteq> [])"
    and s2: "watchingAddresses (demo_service False) = (([] :: bytes list) \<noteq> [])"
    by (simp_all add: demo_service_def)
  have c0: "statePaths (calls (demo_world None :: (nat, nat) world)) = []"
    by (simp add: demo_world_def)
  have r1: "createSnapshot demo_env (demo_service True) (NodeIterator demo_trie)
      ''0x11'' [[1, 0xa, 0xc, 16]] (demo_world None) =
      (Val (), snd (createSnapshot demo_env (demo_service True) (NodeIterator demo_trie)
      ''0x11'' [[1, 0xa, 0xc, 16]] (demo_world None)))"
    by (simp add: demo_run_watched)
  have r2: "createSnapshot demo_env (demo_service False) (NodeIterator demo_trie)
      ''0x11'' [] (demo_world None) =
      (Val (), snd (createSnapshot demo_env (demo_service False) (NodeIterator demo_trie)
      ''0x11'' [] (demo_world None)))"
    by (simp add: demo_run_unwatched)
  have m1: "([1, 0xa], Node (replicate 32 0xa4) False [([0xc, 16], demo_value)])
              \<in> set (walkNodes demo_trie)"
    and m2: "([2], Node (replicate 32 0xa2) False [([0xb, 16], demo_value)])
              \<in> set (walkNodes demo_trie)"
    by (simp_all add: demo_walkNodes)
  have p1: "\<forall>x \<in> set [[1, 0xa, 0xc, 16 :: byte]]. \<not> strict_prefix x [1, 0xa]"
    and p2: "\<forall>x \<in> set [[1, 0xa, 0xc, 16 :: byte]]. \<not> strict_prefix x [2]"
    and p3: "\<forall>x \<in> set ([] :: bytes list). \<not> strict_prefix x [2]"
    by simp_all
  from createSnapshot_watched_emits [OF s1 r1 m1 demo_resolvable(3) p1]
    createSnapshot_watched_emits [OF s1 r1 m2 demo_resolvable(4) p2]
    createSnapshot_watched_emits [OF s2 r2 m2 demo_resolvable(4) p3]
  show ?thesis
    unfolding c0 by simp
qed

text \<open>
  C4. Every record of a Leaf node that a run of \<open>createSnapshot\<close> publishes, state
  or storage, has as key \<open>BytesToHash(compact[1:])\<close> where \<open>compact\<close> is
  \<open>HexToCompact(path ++ CompactToHex(partial))\<close>, \<open>path\<close> the path of the record and
  \<open>partial\<close> the first RLP element of the node's value.
\<close>

theorem published_leaf_key:
  assumes "createSnapshot env s it h ws w = (r, w')"
    and "c \<in> set (drop (length (calls w)) (calls w'))"
    and "c = CallPublishStateNode nd hid tx \<or> c = CallPublishStorageNode nd hid sp tx"
    and "NodeType nd = Leaf"
  shows "\<exists>partial rest.
           rlpDecodeBytes env (Value nd) = Val (RBytes partial # rest) \<and>
           HexToCompact env (Path nd @ CompactToHex env partial) \<noteq> [] \<and>
           Key nd = BytesToHash env (tl (HexToCompact env (Path nd @ CompactToHex env partial)))"
proof -
  from createSnapshot_calls [OF assms(1)] obtain cs where
    "calls w' = calls w @ cs" "\<forall>c \<in> set cs. callOK env c"
    by blast
  with assms(2) have "callOK env c"
    by simp
  with assms(3,4) have "keyOK env nd"
    by auto
  then show ?thesis
    by (auto simp: keyOK_def split: res.splits list.splits rlp.splits)
qed

theorem published_leaf_key_witness:
  "(\<exists>partial rest.
      rlpDecodeBytes demo_env [0xf4] = Val (RBytes partial # rest) \<and>
      HexToCompact demo_env ([1, 0xa] @ CompactToHex demo_env partial) \<noteq> [] \<and>
      replicate 31 0 @ [0xac] =
        BytesToHash demo_env (tl (HexToCompact demo_env ([1, 0xa] @ CompactToHex demo_env partial)))) \<and>
   (\<exists>partial rest.
      rlpDecodeBytes demo_env [0xf3] = Val (RBytes partial # rest) \<and>
      HexToCompact demo_env ([] @ CompactToHex demo_env partial) \<noteq> [] \<and>
      replicate 31 0 @ [0x12] =
        BytesToHash demo_env (tl (HexToCompact demo_env ([] @ CompactToHex demo_env partial))))"
proof -
  let ?run = "createSnapshot demo_env (demo_service False) (NodeIterator demo_trie) ''0x11'' []
                (demo_world None)"
  let ?n1 = "\<lparr>NodeType = Leaf, Path = [1, 0xa], Key = replicate 31 0 @ [0xac], Value = [0xf4]\<rparr>"
  let ?n2 = "\<lparr>NodeType = Leaf, Path = [], Key = replicate 31 0 @ [0x12], Value = [0xf3]\<rparr>"
  have run: "?run = (fst ?run, snd ?run)"
    by simp
  have m1: "CallPublishStateNode ?n1 ''0x11'' 0
      \<in> set (drop (length (calls (demo_world None :: (nat, nat) world))) (calls (snd ?run)))"
    unfolding demo_run_unwatched by (simp add: demo_world_def)
  have m2: "CallPublishStorageNode ?n2 ''0x11'' [2] 0
      \<in> set (drop (length (calls (demo_world None :: (nat, nat) world))) (calls (snd ?run)))"
    unfolding demo_run_unwatched by (simp add: demo_world_def)
  from published_leaf_key [OF run m1, of ?n1 "''0x11''" 0 "[]"]
    published_leaf_key [OF run m2, of ?n2 "''0x11''" 0 "[2]"]
  show ?thesis
    by simp
qed


lemma CheckKeyType_Leaf:
  assumes "CheckKeyType es = Val (Leaf, None)"
  shows "length es = 2"
  using assms
  by (auto simp: CheckKeyType_def split: if_splits rlp.splits list.splits)

lemma leafSnapshot_code:
  assumes run: "leafSnapshot env s tx res it h w = (r, w')"
    and len: "length (elements res) = 2"
    and el1: "elements res ! 1 = RBytes accountBytes"
    and acct: "rlpDecodeAccount env accountBytes = Val acct"
    and key: "leafKey env (Path (node res)) (elements res) = Val k"
    and pub: "callPublishStateNode env ((node res)\<lparr>Key := k\<rparr>) h tx w = (Val (), w2)"
    and code: "publishAccountCode env acct it tx w2 = (r3, w3)"
  shows "(r3 \<noteq> Val () \<longrightarrow> r = r3 \<and> w' = w3) \<and> codeCalls (calls w') = codeCalls (calls w3)"
proof (cases "r3 = Val ()")
  case False
  with run len el1 acct key pub code have "r = r3 \<and> w' = w3"
    by (cases r3) (auto simp: leafSnapshot_def)
  then show ?thesis by simp
next
  case True
  obtain r4 w4 where
    p4: "storageSnapshot env s (Root acct) h (Path (node res)) tx w3 = (r4, w4)"
    by (cases "storageSnapshot env s (Root acct) h (Path (node res)) tx w3")
  from storageSnapshot_calls [OF p4] obtain cs4 where
    c4: "calls w4 = calls w3 @ cs4" "\<forall>c \<in> set cs4. storageCall env c"
    by blast
  from run len el1 acct key pub code True p4 have "w' = w4"
    by (simp add: leafSnapshot_def split: res.splits)
  with c4 storageCalls_props(3) [OF c4(2)] True show ?thesis
    by simp
qed

text \<open>
  C6, as the code has it. For an account Leaf whose state-node record has been
  published: when the code hash differs from \<open>Keccak256(empty)\<close> and the archive
  returns no code bytes, \<open>createNodeSnapshot\<close> does not return the error "missing
  code" of line 345: the log call of line 344 evaluates \<open>it.LeafKey()\<close> first, at
  a position that is not a value position (\<open>resolveNode\<close> returned a node), and
  that call panics with "not at leaf"; no code is published. When the archive
  returns code bytes, exactly that code is published under the code hash; when
  the code hash equals \<open>Keccak256(empty)\<close>, no code is published.
\<close>

theorem createNodeSnapshot_code:
  assumes "resolveNode env path it = Val (Some res)"
    and "NodeType (node res) = Leaf"
    and "callPrepareTxForBatch env tx (maxBatchSize s) w = (Val tx1, w1)"
    and "elements res ! 1 = RBytes accountBytes"
    and "rlpDecodeAccount env accountBytes = Val acct"
    and "leafKey env (Path (node res)) (elements res) = Val k"
    and "callPublishStateNode env ((node res)\<lparr>Key := k\<rparr>) h tx1 w1 = (Val (), w2)"
    and "createNodeSnapshot env s tx path it h ws w = (r, w')"
  shows "(CodeHash acct \<noteq> emptyCodeHash env \<and> ReadCode env (BytesToHash env (CodeHash acct)) = []
            \<longrightarrow> r = Panic ''not at leaf'' \<and> codeCalls (calls w') = codeCalls (calls w)) \<and>
         (CodeHash acct \<noteq> emptyCodeHash env \<and> ReadCode env (BytesToHash env (CodeHash acct)) \<noteq> []
            \<longrightarrow> codeCalls (calls w') =
                 codeCalls (calls w) @
                 [(BytesToHash env (CodeHash acct), ReadCode env (BytesToHash env (CodeHash acct)), tx1)]) \<and>
         (CodeHash acct = emptyCodeHash env \<longrightarrow> codeCalls (calls w') = codeCalls (calls w))"
proof -
  from resolveNode_Some [OF assms(1)] assms(2) have len: "length (elements res) = 2"
    by (auto dest: CheckKeyType_Leaf)
  from assms(1,2,3,8) have run: "leafSnapshot env s tx1 res it h w1 = (r, w')"
    by (simp add: createNodeSnapshot_def)
  from resolveNode_Some [OF assms(1)] have nl: "\<not> itLeaf it"
    by blast
  obtain r3 w3 where code: "publishAccountCode env acct it tx1 w2 = (r3, w3)"
    by (cases "publishAccountCode env acct it tx1 w2")
  note fin = leafSnapshot_code [OF run len assms(4,5,6,7) code]
  have c12: "codeCalls (calls w2) = codeCalls (calls w)"
    using callPrepareTxForBatch_calls [OF assms(3)] callPublishStateNode_calls [OF assms(7)]
    by simp
  let ?hash = "BytesToHash env (CodeHash acct)"
  have A: "r = Panic ''not at leaf'' \<and> codeCalls (calls w') = codeCalls (calls w)"
    if a: "CodeHash acct \<noteq> emptyCodeHash env \<and> ReadCode env ?hash = []"
  proof -
    from a code nl have "r3 = Panic ''not at leaf''" "w3 = w2"
      by (auto simp: publishAccountCode_def itLeafKey_def Let_def)
    with fin c12 show ?thesis
      by simp
  qed
  have B: "codeCalls (calls w') = codeCalls (calls w) @ [(?hash, ReadCode env ?hash, tx1)]"
    if a: "CodeHash acct \<noteq> emptyCodeHash env \<and> ReadCode env ?hash \<noteq> []"
  proof -
    from a code have "callPublishCode env ?hash (ReadCode env ?hash) tx1 w2 = (r3, w3)"
      by (simp add: publishAccountCode_def Let_def)
    from callPublishCode_calls [OF this] fin c12 show ?thesis
      by simp
  qed
  have C: "codeCalls (calls w') = codeCalls (calls w)"
    if a: "CodeHash acct = emptyCodeHash env"
  proof -
    from a code have "w3 = w2"
      by (simp add: publishAccountCode_def)
    with fin c12 show ?thesis
      by simp
  qed
  from A B C show ?thesis
    by blast
qed

theorem createNodeSnapshot_code_witness:
  "fst (createNodeSnapshot (demo_env\<lparr>ReadCode := \<lambda>h. []\<rparr>) (demo_service False) 0 [2]
          \<lparr>itCur = Some ([2], Node (replicate 32 0xa2) False [([0xb, 16], demo_value)]),
           itStack = [], itErr = None\<rparr> ''0x11'' [] (demo_world None)) = Panic ''not at leaf'' \<and>
   codeCalls (calls (snd (createNodeSnapshot (demo_env\<lparr>ReadCode := \<lambda>h. []\<rparr>) (demo_service False) 0 [2]
          \<lparr>itCur = Some ([2], Node (replicate 32 0xa2) False [([0xb, 16], demo_value)]),
           itStack = [], itErr = None\<rparr> ''0x11'' [] (demo_world None)))) = [] \<and>
   codeCalls (calls (snd (createNodeSnapshot demo_env (demo_service False) 0 [2]
          \<lparr>itCur = Some ([2], Node (replicate 32 0xa2) False [([0xb, 16], demo_value)]),
           itStack = [], itErr = None\<rparr> ''0x11'' [] (demo_world None)))) =
     [(replicate 32 0xc0, [0x60, 0x00], 0)] \<and>
   codeCalls (calls (snd (createNodeSnapshot demo_env (demo_service False) 0 [1, 0xa]
          \<lparr>itCur = Some ([1, 0xa], Node (replicate 32 0xa4) False [([0xc, 16], demo_value)]),
           itStack = [], itErr = None\<rparr> ''0x11'' [] (demo_world None)))) = []"
proof -
  let ?env' = "demo_env\<lparr>ReadCode := \<lambda>h. []\<rparr>"
  let ?s = "demo_service False"
  let ?w = "demo_world None :: (nat, nat) world"
  let ?w1 = "\<lparr>pub = 0, recovery = None, calls = [CallPrepareTxForBatch 0 100]\<rparr> :: (nat, nat) world"
  let ?it2 = "\<lparr>itCur = Some ([2], Node (replicate 32 0xa2) False [([0xb, 16], demo_value)]),
               itStack = [], itErr = None\<rparr>"
  let ?it1 = "\<lparr>itCur = Some ([1, 0xa], Node (replicate 32 0xa4) False [([0xc, 16], demo_value)]),
               itStack = [], itErr = None\<rparr>"
  let ?res2 = "\<lparr>node = \<lparr>NodeType = Leaf, Path = [2], Key = nullHash, Value = [0xf2]\<rparr>,
                elements = [RBytes [0x3b], RBytes [2]]\<rparr>"
  let ?res1 = "\<lparr>node = \<lparr>NodeType = Leaf, Path = [1, 0xa], Key = nullHash, Value = [0xf4]\<rparr>,
                elements = [RBytes [0x3c], RBytes [1]]\<rparr>"
  let ?acct2 = "\<lparr>Nonce = 1, Balance = 7, Root = replicate 32 0x77, CodeHash = replicate 32 0xc0\<rparr>"
  let ?acct1 = "\<lparr>Nonce = 0, Balance = 0, Root = replicate 32 0x56, CodeHash = replicate 32 0xc5\<rparr>"
  let ?k2 = "replicate 31 0 @ [0x2b] :: bytes"
  let ?k1 = "replicate 31 0 @ [0xac] :: bytes"
  let ?w2 = "\<lambda>res k. \<lparr>pub = 1, recovery = None,
      calls = [CallPrepareTxForBatch 0 100, CallPublishStateNode ((node res)\<lparr>Key := k\<rparr>) ''0x11'' 0]\<rparr>
      :: (nat, nat) world"
  note defs = walker_defs demo_defs replicate_num
  have a: "resolveNode ?env' [2] ?it2 = Val (Some ?res2)"
    "NodeType (node ?res2) = Leaf"
    "callPrepareTxForBatch ?env' 0 (maxBatchSize ?s) ?w = (Val 0, ?w1)"
    "elements ?res2 ! 1 = RBytes [2]"
    "rlpDecodeAccount ?env' [2] = Val ?acct2"
    "leafKey ?env' (Path (node ?res2)) (elements ?res2) = Val ?k2"
    "callPublishStateNode ?env' ((node ?res2)\<lparr>Key := ?k2\<rparr>) ''0x11'' 0 ?w1 = (Val (), ?w2 ?res2 ?k2)"
    by (simp_all add: defs)
  have b: "resolveNode demo_env [2] ?it2 = Val (Some ?res2)"
    "callPrepareTxForBatch demo_env 0 (maxBatchSize ?s) ?w = (Val 0, ?w1)"
    "rlpDecodeAccount demo_env [2] = Val ?acct2"
    "leafKey demo_env (Path (node ?res2)) (elements ?res2) = Val ?k2"
    "callPublishStateNode demo_env ((node ?res2)\<lparr>Key := ?k2\<rparr>) ''0x11'' 0 ?w1 = (Val (), ?w2 ?res2 ?k2)"
    by (simp_all add: defs)
  have c: "resolveNode demo_env [1, 0xa] ?it1 = Val (Some ?res1)"
    "NodeType (node ?res1) = Leaf"
    "elements ?res1 ! 1 = RBytes [1]"
    "rlpDecodeAccount demo_env [1] = Val ?acct1"
    "leafKey demo_env (Path (node ?res1)) (elements ?res1) = Val ?k1"
    "callPublishStateNode demo_env ((node ?res1)\<lparr>Key := ?k1\<rparr>) ''0x11'' 0 ?w1 = (Val (), ?w2 ?res1 ?k1)"
    by (simp_all add: defs)
  have run: "f = (fst f, snd f)" for f :: "unit res \<times> (nat, nat) world"
    by simp
  from createNodeSnapshot_code [OF a(1,2,3,4,5,6,7) run, of "[]"]
    createNodeSnapshot_code [OF b(1) a(2) b(2) a(4) b(3,4,5) run, of "[]"]
    createNodeSnapshot_code [OF c(1,2) b(2) c(3,4,5,6) run, of "[]"]
  show ?thesis
    by (simp add: emptyCodeHash_def demo_env_def demo_BytesToHash_def demo_world_def replicate_num)
qed

lemma CreateSnapshot_service:
  "fst (snd (CreateSnapshot env s params w)) =
     s\<lparr>watchingAddresses := (WatchedAddresses params \<noteq> [])\<rparr>"
  by (simp add: CreateSnapshot_def Let_def split: option.splits prod.splits res.splits)

text \<open>
  C7. \<open>validPath\<close> returns true exactly when some watched path has the current
  path as a prefix. The walker skips a path exactly when the flag
  \<open>watchingAddresses\<close> is set and \<open>validPath\<close> is false, and \<open>CreateSnapshot\<close> sets
  the flag exactly when the watched set is not empty: with an empty watched set
  no path is skipped.
\<close>

theorem validPath_filter:
  "validPath p ws = (\<exists>x \<in> set ws. prefix p x) \<and>
   skipPath s p ws = (watchingAddresses s \<and> \<not> (\<exists>x \<in> set ws. prefix p x)) \<and>
   watchingAddresses (fst (snd (CreateSnapshot env s params w))) = (WatchedAddresses params \<noteq> []) \<and>
   \<not> skipPath (fst (snd (CreateSnapshot env s (params\<lparr>WatchedAddresses := []\<rparr>) w))) p ws"
  by (simp add: validPath_iff skipPath_def CreateSnapshot_service)

theorem validPath_filter_witness:
  "validPath [1, 0xa] [[2, 0xb, 16], [1, 0xa, 0xc, 16]] \<and>
   \<not> validPath [1, 0xb] [[2, 0xb, 16], [1, 0xa, 0xc, 16]] \<and>
   \<not> validPath [1, 0xa, 0xc, 16, 0] [[2, 0xb, 16], [1, 0xa, 0xc, 16]] \<and>
   skipPath (demo_service True) [1, 0xb] [[2, 0xb, 16], [1, 0xa, 0xc, 16]] \<and>
   \<not> skipPath (demo_service False) [1, 0xb] []"
  using validPath_filter [of "[1, 0xa]" "[[2, 0xb, 16], [1, 0xa, 0xc, 16]]" "demo_service True"
      demo_env "\<lparr>WatchedAddresses = [], Height = 5, Workers = 1\<rparr>" "demo_world None"]
    validPath_filter [of "[1, 0xb]" "[[2, 0xb, 16], [1, 0xa, 0xc, 16]]" "demo_service True"
      demo_env "\<lparr>WatchedAddresses = [], Height = 5, Workers = 1\<rparr>" "demo_world None"]
    validPath_filter [of "[1, 0xa, 0xc, 16, 0]" "[[2, 0xb, 16], [1, 0xa, 0xc, 16]]" "demo_service True"
      demo_env "\<lparr>WatchedAddresses = [], Height = 5, Workers = 1\<rparr>" "demo_world None"]
    validPath_filter [of "[1, 0xb]" "[]" "demo_service False"
      demo_env "\<lparr>WatchedAddresses = [], Height = 5, Workers = 1\<rparr>" "demo_world None"]
  by (simp add: demo_service_def del: validPath.simps)

text \<open>
  C9. \<open>CreateLatestSnapshot\<close> reads the head height and calls \<open>CreateSnapshot\<close>
  with that height, the worker count and the watched addresses it was given.
\<close>

theorem CreateLatestSnapshot_forwards:
  assumes "ReadHeaderNumber env (ReadHeadHeaderHash env) = Some height"
  shows "CreateLatestSnapshot env s workers watched w =
           CreateSnapshot env s \<lparr>WatchedAddresses = watched, Height = height, Workers = workers\<rparr> w \<and>
         watchingAddresses (fst (snd (CreateLatestSnapshot env s workers watched w))) = (watched \<noteq> [])"
  using assms by (simp add: CreateLatestSnapshot_def CreateSnapshot_service)

theorem CreateLatestSnapshot_forwards_witness:
  "CreateLatestSnapshot demo_env (demo_service False) 1 [[0x1a]] (demo_world None) =
     CreateSnapshot demo_env (demo_service False)
       \<lparr>WatchedAddresses = [[0x1a]], Height = 5, Workers = 1\<rparr> (demo_world None) \<and>
   watchingAddresses (fst (snd (CreateLatestSnapshot demo_env (demo_service False) 1 [[0x1a]]
     (demo_world None))))"
proof -
  have "ReadHeaderNumber demo_env (ReadHeadHeaderHash demo_env) = Some 5"
    by (simp add: demo_env_def)
  note t = CreateLatestSnapshot_forwards [OF this, of "demo_service False" 1 "[[0x1a]]" "demo_world None"]
  show ?thesis
  proof (intro conjI)
    show "CreateLatestSnapshot demo_env (demo_service False) 1 [[0x1a]] (demo_world None) =
        CreateSnapshot demo_env (demo_service False)
          \<lparr>WatchedAddresses = [[0x1a]], Height = 5, Workers = 1\<rparr> (demo_world None)"
      by (rule t [THEN conjunct1])
    show "watchingAddresses (fst (snd (CreateLatestSnapshot demo_env (demo_service False) 1 [[0x1a]]
        (demo_world None))))"
      using t [THEN conjunct2] by simp
  qed
qed

text \<open>
  C8. When the tracker restores more iterators than there are workers, and
  leaves the recovery file as it read it, \<open>CreateSnapshot\<close> returns the
  configuration error; the recovery file is unchanged, and after publishing the
  header and restoring it has made no further call: no walker has started and
  \<open>haltAndDump\<close> has not run.
\<close>

theorem CreateSnapshot_too_many_restored:
  assumes "ReadHeader env (ReadCanonicalHash env (Height params)) (Height params) = Some hdr"
    and "callPublishHeader env hdr w = (Val (), w1)"
    and "OpenTrie env (headerRoot hdr) = Val tree"
    and "trackerRestore env tree (recovery w) = (Val (Some iters), recovery w)"
    and "Workers params < of_nat (length iters)"
  shows "fst (CreateSnapshot env s params w) =
           Fail ''number of recovered workers is greater than number configured'' \<and>
         recovery (snd (snd (CreateSnapshot env s params w))) = recovery w \<and>
         calls (snd (snd (CreateSnapshot env s params w))) =
           calls w @ [CallPublishHeader hdr, CallRestore]"
proof -
  from assms(2) have w1: "recovery w1 = recovery w" "calls w1 = calls w @ [CallPublishHeader hdr]"
    by (auto simp: callPublishHeader_def split: prod.splits)
  with assms(4) have "callRestore env tree w1 =
      (Val (Some iters), w1\<lparr>recovery := recovery w, calls := calls w1 @ [CallRestore]\<rparr>)"
    by (simp add: callRestore_def)
  with assms(1,2,3,5) w1 show ?thesis
    by (simp add: CreateSnapshot_def Let_def)
qed

theorem CreateSnapshot_too_many_restored_witness:
  "fst (CreateSnapshot demo_env (demo_service False)
          \<lparr>WatchedAddresses = [], Height = 5, Workers = 2\<rparr>
          (demo_world (Some [([], [1]), ([], [2]), ([], [3])]))) =
     Fail ''number of recovered workers is greater than number configured'' \<and>
   recovery (snd (snd (CreateSnapshot demo_env (demo_service False)
          \<lparr>WatchedAddresses = [], Height = 5, Workers = 2\<rparr>
          (demo_world (Some [([], [1]), ([], [2]), ([], [3])]))))) =
     Some [([], [1]), ([], [2]), ([], [3])] \<and>
   calls (snd (snd (CreateSnapshot demo_env (demo_service False)
          \<lparr>WatchedAddresses = [], Height = 5, Workers = 2\<rparr>
          (demo_world (Some [([], [1]), ([], [2]), ([], [3])]))))) =
     [CallPublishHeader \<lparr>headerNumber = 5, headerRoot = replicate 32 0xa0\<rparr>, CallRestore]"
proof -
  let ?params = "\<lparr>WatchedAddresses = [], Height = 5, Workers = 2\<rparr>"
  let ?hdr = "\<lparr>headerNumber = 5, headerRoot = replicate 32 0xa0\<rparr>"
  let ?f = "Some [([], [1]), ([], [2]), ([], [3])] :: recoveryFile"
  let ?w = "demo_world ?f"
  let ?its = "[NodeIterator demo_trie, NodeIterator demo_trie, NodeIterator demo_trie]"
  have a: "ReadHeader demo_env (ReadCanonicalHash demo_env (Height ?params)) (Height ?params) = Some ?hdr"
    "callPublishHeader demo_env ?hdr ?w = (Val (), \<lparr>pub = 1, recovery = ?f, calls = [CallPublishHeader ?hdr]\<rparr>)"
    "OpenTrie demo_env (headerRoot ?hdr) = Val demo_trie"
    "trackerRestore demo_env demo_trie (recovery ?w) = (Val (Some ?its), recovery ?w)"
    "Workers ?params < of_nat (length ?its)"
    by (simp_all add: demo_env_def demo_world_def callPublishHeader_def replicate_num)
  from CreateSnapshot_too_many_restored [OF a, of "demo_service False"] show ?thesis
    by (simp add: demo_world_def)
qed

lemma runWorkers_calls:
  "runWorkers env s iters h ps w = (rs, w') \<Longrightarrow> \<exists>cs. calls w' = calls w @ cs"
proof (induction iters arbitrary: w rs w')
  case Nil
  then show ?case by simp
next
  case (Cons it iters)
  obtain r w1 where c: "createSnapshot env s it h ps w = (r, w1)"
    by (cases "createSnapshot env s it h ps w")
  obtain rs' w2 where rw: "runWorkers env s iters h ps w1 = (rs', w2)"
    by (cases "runWorkers env s iters h ps w1")
  from Cons.prems c rw have "w' = w2"
    by simp
  with createSnapshot_calls [OF c] Cons.IH [OF rw] show ?case
    by auto
qed

lemma createSnapshotAsync_calls:
  "\<exists>cs. calls (snd (createSnapshotAsync env s iters h ps w)) =
          calls w @ map CallGo [0..<length iters] @ cs"
proof -
  obtain rs w1 where rw: "runWorkers env s iters h ps
      (w\<lparr>calls := calls w @ map CallGo [0..<length iters]\<rparr>) = (rs, w1)"
    by (cases "runWorkers env s iters h ps (w\<lparr>calls := calls w @ map CallGo [0..<length iters]\<rparr>)")
  from runWorkers_calls [OF rw] rw show ?thesis
    by (auto simp: createSnapshotAsync_def)
qed

lemma dispatchIterators_nonempty:
  "iters \<noteq> [] \<Longrightarrow>
     dispatchIterators env s iters h ps w = createSnapshotAsync env s iters h ps w"
  by (simp add: dispatchIterators_def)

text \<open>
  C3 fails on the code: with exactly one iterator \<open>len(iters) > 0\<close> holds, so the
  iterator goes to \<open>createSnapshotAsync\<close> and a goroutine is started for it.
  On the small chain with one worker and no recovery file, the first call after
  publishing the header and restoring is the start of the goroutine of worker 0.
\<close>

lemma dispatchIterators_single:
  "dispatchIterators env s [it] h ps w = createSnapshotAsync env s [it] h ps w \<and>
   (\<exists>cs. calls (snd (dispatchIterators env s [it] h ps w)) = calls w @ CallGo 0 # cs)"
  using createSnapshotAsync_calls [of env s "[it]" h ps w]
  by (simp add: dispatchIterators_def)

theorem CreateSnapshot_single_worker_evaluation:
  "fst (CreateSnapshot demo_env (demo_service False)
          \<lparr>WatchedAddresses = [], Height = 5, Workers = 1\<rparr> (demo_world None)) = Val () \<and>
   take 4 (calls (snd (snd (CreateSnapshot demo_env (demo_service False)
          \<lparr>WatchedAddresses = [], Height = 5, Workers = 1\<rparr> (demo_world None))))) =
     [CallPublishHeader \<lparr>headerNumber = 5, headerRoot = replicate 32 0xa0\<rparr>,
      CallRestore, CallGo 0, CallBeginTx]"
  by (simp add: CreateSnapshot_def dispatchIterators_def createSnapshotAsync_def
      walker_defs demo_defs replicate_num)

text \<open>
  C10. When the tracker restores an empty, non-nil list of iterators,
  \<open>CreateSnapshot\<close> takes the branch that indexes \<open>iters[0]\<close> and panics with
  "index out of range"; only the deferred \<open>haltAndDump\<close> runs after the restore.
  That branch is taken only for an empty list: any non-empty list goes to
  \<open>createSnapshotAsync\<close>.
\<close>

theorem CreateSnapshot_empty_restore_panics:
  assumes "ReadHeader env (ReadCanonicalHash env (Height params)) (Height params) = Some hdr"
    and "callPublishHeader env hdr w = (Val (), w1)"
    and "OpenTrie env (headerRoot hdr) = Val tree"
    and "callRestore env tree w1 = (Val (Some []), w2)"
  shows "fst (CreateSnapshot env s params w) =
           (case fst (callHaltAndDump env w2) of
              Panic e \<Rightarrow> Panic e
            | _ \<Rightarrow> Panic ''index out of range [0] with length 0'') \<and>
         calls (snd (snd (CreateSnapshot env s params w))) = calls w2 @ [CallHaltAndDump] \<and>
         dispatchIterators env s' [] h ps w' = (Panic ''index out of range [0] with length 0'', w') \<and>
         (iters \<noteq> [] \<longrightarrow>
            dispatchIterators env s' iters h ps w' = createSnapshotAsync env s' iters h ps w')"
proof -
  obtain rh w3 where hd: "callHaltAndDump env w2 = (rh, w3)"
    by (cases "callHaltAndDump env w2")
  then have c3: "calls w3 = calls w2 @ [CallHaltAndDump]"
    by (auto simp: callHaltAndDump_def split: prod.splits)
  from assms hd c3 have
    "fst (CreateSnapshot env s params w) =
       (case rh of Panic e \<Rightarrow> Panic e | _ \<Rightarrow> Panic ''index out of range [0] with length 0'')"
    "calls (snd (snd (CreateSnapshot env s params w))) = calls w2 @ [CallHaltAndDump]"
    by (cases rh; simp add: CreateSnapshot_def Let_def dispatchIterators_def)+
  with hd show ?thesis
    by (simp add: dispatchIterators_def)
qed

theorem CreateSnapshot_empty_restore_panics_witness:
  "fst (CreateSnapshot demo_env (demo_service False)
          \<lparr>WatchedAddresses = [], Height = 5, Workers = 2\<rparr> (demo_world (Some []))) =
     Panic ''index out of range [0] with length 0'' \<and>
   calls (snd (snd (CreateSnapshot demo_env (demo_service False)
          \<lparr>WatchedAddresses = [], Height = 5, Workers = 2\<rparr> (demo_world (Some []))))) =
     [CallPublishHeader \<lparr>headerNumber = 5, headerRoot = replicate 32 0xa0\<rparr>,
      CallRestore, CallHaltAndDump] \<and>
   dispatchIterators demo_env (demo_service False) [NodeIterator demo_trie] ''0x11'' []
       (demo_world None) =
     createSnapshotAsync demo_env (demo_service False) [NodeIterator demo_trie] ''0x11'' []
       (demo_world None)"
proof -
  let ?params = "\<lparr>WatchedAddresses = [], Height = 5, Workers = 2\<rparr>"
  let ?hdr = "\<lparr>headerNumber = 5, headerRoot = replicate 32 0xa0\<rparr>"
  let ?w = "demo_world (Some []) :: (nat, nat) world"
  let ?w1 = "\<lparr>pub = 1, recovery = Some [], calls = [CallPublishHeader ?hdr]\<rparr> :: (nat, nat) world"
  let ?w2 = "\<lparr>pub = 1, recovery = Some [], calls = [CallPublishHeader ?hdr, CallRestore]\<rparr>
               :: (nat, nat) world"
  have a: "ReadHeader demo_env (ReadCanonicalHash demo_env (Height ?params)) (Height ?params) = Some ?hdr"
    "callPublishHeader demo_env ?hdr ?w = (Val (), ?w1)"
    "OpenTrie demo_env (headerRoot ?hdr) = Val demo_trie"
    "callRestore demo_env demo_trie ?w1 = (Val (Some []), ?w2)"
    by (simp_all add: demo_env_def demo_world_def callPublishHeader_def callRestore_def replicate_num)
  have h: "fst (callHaltAndDump demo_env ?w2) = Val ()"
    by (simp add: callHaltAndDump_def demo_env_def)
  have ne: "[NodeIterator demo_trie] \<noteq> []"
    by simp
  from CreateSnapshot_empty_restore_panics [OF a, of "demo_service False" "demo_service False"
      "''0x11''" "[]" "demo_world None" "[NodeIterator demo_trie]"] h ne
  show ?thesis
    by simp
qed

text \<open>
  C2. \<open>CheckKeyType\<close> classifies a decoded element list: more than two
  elements give Branch; exactly two elements give Extension when the high
  nibble of the first byte of the first element is 0 or 1, Leaf when it is 2 or
  3, and the error with type Unknown when it exceeds 3; fewer than two elements
  give the error with type Unknown.
\<close>

theorem CheckKeyType_classification:
  "(length es > 2 \<longrightarrow> CheckKeyType es = Val (Branch, None)) \<and>
   (length es = 2 \<and> es ! 0 = RBytes (b # bs) \<and> drop_bit 4 b \<in> {0, 1}
      \<longrightarrow> CheckKeyType es = Val (Extension, None)) \<and>
   (length es = 2 \<and> es ! 0 = RBytes (b # bs) \<and> drop_bit 4 b \<in> {2, 3}
      \<longrightarrow> CheckKeyType es = Val (Leaf, None)) \<and>
   (length es < 2
      \<longrightarrow> CheckKeyType es = Val (Unknown, Some ''node cannot be less than two elements in length'')) \<and>
   (length es = 2 \<and> es ! 0 = RBytes (b # bs) \<and> 3 < drop_bit 4 b
      \<longrightarrow> CheckKeyType es = Val (Unknown, Some ''unknown hex prefix''))"
proof -
  have nib: "drop_bit 4 b = b div 16"
    by (simp add: drop_bit_eq_div)
  show ?thesis
    unfolding nib by (auto simp: CheckKeyType_def)
qed

theorem CheckKeyType_classification_witness:
  "CheckKeyType [RBytes [0x20], RBytes [], RBytes []] = Val (Branch, None) \<and>
   CheckKeyType [RBytes [0x1a, 0xbc], RBytes [0x01]] = Val (Extension, None) \<and>
   CheckKeyType [RBytes [0x3a], RBytes [0x01]] = Val (Leaf, None) \<and>
   CheckKeyType [RBytes [0x3a]] = Val (Unknown, Some ''node cannot be less than two elements in length'') \<and>
   CheckKeyType [RBytes [0x4a], RBytes [0x01]] = Val (Unknown, Some ''unknown hex prefix'')"
  using CheckKeyType_classification [of "[RBytes [0x20], RBytes [], RBytes []]" 0 "[]"]
    CheckKeyType_classification [of "[RBytes [0x1a, 0xbc], RBytes [0x01]]" "0x1a" "[0xbc]"]
    CheckKeyType_classification [of "[RBytes [0x3a], RBytes [0x01]]" "0x3a" "[]"]
    CheckKeyType_classification [of "[RBytes [0x3a]]" 0 "[]"]
    CheckKeyType_classification [of "[RBytes [0x4a], RBytes [0x01]]" "0x4a" "[]"]
  by (simp add: drop_bit_eq_div)

text \<open>
  C5, as the code has it. When the batch counter has reached the threshold and
  both the commit of \<open>tx\<close> and the opening of a new transaction succeed,
  \<open>PrepareTxForBatch\<close> returns the new handle and resets the counter to 0. When
  the commit fails it returns that error, opens nothing and leaves the counter
  as it was; when the opening fails it returns that error and leaves the counter
  as it was. Below the threshold it returns \<open>tx\<close> and changes nothing.
\<close>

theorem PrepareTxForBatch_cases:
  "(m \<le> currBatchSize p \<and> Commit sq tx (db p) = (Val (), d1) \<and> Beginx sq d1 = (Val tx', d2)
      \<longrightarrow> PrepareTxForBatch sq tx m p = (Val tx', p\<lparr>db := d2, currBatchSize := 0\<rparr>)) \<and>
   (m \<le> currBatchSize p \<and> Commit sq tx (db p) = (Fail e, d1)
      \<longrightarrow> PrepareTxForBatch sq tx m p = (Fail e, p\<lparr>db := d1\<rparr>)) \<and>
   (m \<le> currBatchSize p \<and> Commit sq tx (db p) = (Val (), d1) \<and> Beginx sq d1 = (Fail e, d2)
      \<longrightarrow> PrepareTxForBatch sq tx m p = (Fail e, p\<lparr>db := d2\<rparr>)) \<and>
   (\<not> m \<le> currBatchSize p
      \<longrightarrow> PrepareTxForBatch sq tx m p = (Val tx, p))"
  by (simp add: PrepareTxForBatch_def)

theorem PrepareTxForBatch_cases_witness:
  "PrepareTxForBatch demo_sqlx 0 100 (demo_publisher [] 1 True 100) =
     (Val 1, demo_publisher [0] 2 True 0) \<and>
   PrepareTxForBatch demo_sqlx 0 100 (demo_publisher [0] 1 True 100) =
     (Fail ''sql: transaction has already been committed or rolled back'', demo_publisher [0] 1 True 100) \<and>
   PrepareTxForBatch demo_sqlx 0 100 (demo_publisher [] 1 False 100) =
     (Fail ''sql: database is closed'', demo_publisher [0] 1 False 100) \<and>
   PrepareTxForBatch demo_sqlx 0 100 (demo_publisher [] 1 True 98) =
     (Val 0, demo_publisher [] 1 True 98)"
  using
    PrepareTxForBatch_cases [of 100 "demo_publisher [] 1 True 100" demo_sqlx 0
      "\<lparr>committed = [0], opened = 1, online = True\<rparr>" 1
      "\<lparr>committed = [0], opened = 2, online = True\<rparr>"]
    PrepareTxForBatch_cases [of 100 "demo_publisher [0] 1 True 100" demo_sqlx 0
      "\<lparr>committed = [0], opened = 1, online = True\<rparr>" 1
      "\<lparr>committed = [0], opened = 1, online = True\<rparr>"
      "''sql: transaction has already been committed or rolled back''"]
    PrepareTxForBatch_cases [of 100 "demo_publisher [] 1 False 100" demo_sqlx 0
      "\<lparr>committed = [0], opened = 1, online = False\<rparr>" 1
      "\<lparr>committed = [0], opened = 1, online = False\<rparr>"
      "''sql: database is closed''"]
    PrepareTxForBatch_cases [of 100 "demo_publisher [] 1 True 98" demo_sqlx 0]
  by (simp add: demo_sqlx_def demo_publisher_def)

text \<open>
  The claim C5 as it is written fails where the commit fails: the handle 0 is
  already committed, the counter has reached the threshold 100, and the call
  returns the error of the commit; no handle is opened and the counter stays
  at 100.
\<close>

theorem PrepareTxForBatch_commit_fails_counterexample:
  "100 \<le> currBatchSize (demo_publisher [0] 1 True 100) \<and>
   PrepareTxForBatch demo_sqlx 0 100 (demo_publisher [0] 1 True 100) =
     (Fail ''sql: transaction has already been committed or rolled back'', demo_publisher [0] 1 True 100) \<and>
   currBatchSize (demo_publisher [0] 1 True 100) = 100 \<and>
   opened (db (demo_publisher [0] 1 True 100)) = 1"
  by (simp add: PrepareTxForBatch_def demo_sqlx_def demo_publisher_def)

end
